theory Spec2Isabelle
  imports Main "HOL-Library.Word"
begin

unbundle bit_operations_syntax

text \<open>
  The repository binds the Rijndael block cipher to MoonBit. Its C file
  src/native/stub.c derives a schedule buffer from a key
  (\<open>camlpdf_caml_aes_cook_encrypt_key\<close>, \<open>camlpdf_caml_aes_cook_decrypt_key\<close>) and
  transforms one block of sixteen bytes between two buffers
  (\<open>camlpdf_caml_aes_encrypt\<close>, \<open>camlpdf_caml_aes_decrypt\<close>). Each of the four calls
  one routine of rijndael-alg-fst.c, which is not under src/. The theory embeds the
  four functions of stub.c as they are written, over a store of byte buffers, and
  the four routines they call as the spec describes them.
\<close>

section \<open>Bytes, words and the constant tables\<close>

type_synonym u8 = "8 word"
type_synonym u32 = "32 word"

text \<open>
  Modelled from the spec: the forward S-box of section 4.1. The table belongs to
  rijndael-alg-fst.c, a file of the repository that is not under src/; the values
  are the published ones.
\<close>

definition Sbox_table :: "u8 list" where
  "Sbox_table =
    [
     0x63, 0x7c, 0x77, 0x7b, 0xf2, 0x6b, 0x6f, 0xc5,
     0x30, 0x01, 0x67, 0x2b, 0xfe, 0xd7, 0xab, 0x76,
     0xca, 0x82, 0xc9, 0x7d, 0xfa, 0x59, 0x47, 0xf0,
     0xad, 0xd4, 0xa2, 0xaf, 0x9c, 0xa4, 0x72, 0xc0,
     0xb7, 0xfd, 0x93, 0x26, 0x36, 0x3f, 0xf7, 0xcc,
     0x34, 0xa5, 0xe5, 0xf1, 0x71, 0xd8, 0x31, 0x15,
     0x04, 0xc7, 0x23, 0xc3, 0x18, 0x96, 0x05, 0x9a,
     0x07, 0x12, 0x80, 0xe2, 0xeb, 0x27, 0xb2, 0x75,
     0x09, 0x83, 0x2c, 0x1a, 0x1b, 0x6e, 0x5a, 0xa0,
     0x52, 0x3b, 0xd6, 0xb3, 0x29, 0xe3, 0x2f, 0x84,
     0x53, 0xd1, 0x00, 0xed, 0x20, 0xfc, 0xb1, 0x5b,
     0x6a, 0xcb, 0xbe, 0x39, 0x4a, 0x4c, 0x58, 0xcf,
     0xd0, 0xef, 0xaa, 0xfb, 0x43, 0x4d, 0x33, 0x85,
     0x45, 0xf9, 0x02, 0x7f, 0x50, 0x3c, 0x9f, 0xa8,
     0x51, 0xa3, 0x40, 0x8f, 0x92, 0x9d, 0x38, 0xf5,
     0xbc, 0xb6, 0xda, 0x21, 0x10, 0xff, 0xf3, 0xd2,
     0xcd, 0x0c, 0x13, 0xec, 0x5f, 0x97, 0x44, 0x17,
     0xc4, 0xa7, 0x7e, 0x3d, 0x64, 0x5d, 0x19, 0x73,
     0x60, 0x81, 0x4f, 0xdc, 0x22, 0x2a, 0x90, 0x88,
     0x46, 0xee, 0xb8, 0x14, 0xde, 0x5e, 0x0b, 0xdb,
     0xe0, 0x32, 0x3a, 0x0a, 0x49, 0x06, 0x24, 0x5c,
     0xc2, 0xd3, 0xac, 0x62, 0x91, 0x95, 0xe4, 0x79,
     0xe7, 0xc8, 0x37, 0x6d, 0x8d, 0xd5, 0x4e, 0xa9,
     0x6c, 0x56, 0xf4, 0xea, 0x65, 0x7a, 0xae, 0x08,
     0xba, 0x78, 0x25, 0x2e, 0x1c, 0xa6, 0xb4, 0xc6,
     0xe8, 0xdd, 0x74, 0x1f, 0x4b, 0xbd, 0x8b, 0x8a,
     0x70, 0x3e, 0xb5, 0x66, 0x48, 0x03, 0xf6, 0x0e,
     0x61, 0x35, 0x57, 0xb9, 0x86, 0xc1, 0x1d, 0x9e,
     0xe1, 0xf8, 0x98, 0x11, 0x69, 0xd9, 0x8e, 0x94,
     0x9b, 0x1e, 0x87, 0xe9, 0xce, 0x55, 0x28, 0xdf,
     0x8c, 0xa1, 0x89, 0x0d, 0xbf, 0xe6, 0x42, 0x68,
     0x41, 0x99, 0x2d, 0x0f, 0xb0, 0x54, 0xbb, 0x16
    ]"

text \<open>
  Modelled from the spec: the inverse S-box of section 4.1 (published values).
\<close>

definition InvSbox_table :: "u8 list" where
  "InvSbox_table =
    [
     0x52, 0x09, 0x6a, 0xd5, 0x30, 0x36, 0xa5, 0x38,
     0xbf, 0x40, 0xa3, 0x9e, 0x81, 0xf3, 0xd7, 0xfb,
     0x7c, 0xe3, 0x39, 0x82, 0x9b, 0x2f, 0xff, 0x87,
     0x34, 0x8e, 0x43, 0x44, 0xc4, 0xde, 0xe9, 0xcb,
     0x54, 0x7b, 0x94, 0x32, 0xa6, 0xc2, 0x23, 0x3d,
     0xee, 0x4c, 0x95, 0x0b, 0x42, 0xfa, 0xc3, 0x4e,
     0x08, 0x2e, 0xa1, 0x66, 0x28, 0xd9, 0x24, 0xb2,
     0x76, 0x5b, 0xa2, 0x49, 0x6d, 0x8b, 0xd1, 0x25,
     0x72, 0xf8, 0xf6, 0x64, 0x86, 0x68, 0x98, 0x16,
     0xd4, 0xa4, 0x5c, 0xcc, 0x5d, 0x65, 0xb6, 0x92,
     0x6c, 0x70, 0x48, 0x50, 0xfd, 0xed, 0xb9, 0xda,
     0x5e, 0x15, 0x46, 0x57, 0xa7, 0x8d, 0x9d, 0x84,
     0x90, 0xd8, 0xab, 0x00, 0x8c, 0xbc, 0xd3, 0x0a,
     0xf7, 0xe4, 0x58, 0x05, 0xb8, 0xb3, 0x45, 0x06,
     0xd0, 0x2c, 0x1e, 0x8f, 0xca, 0x3f, 0x0f, 0x02,
     0xc1, 0xaf, 0xbd, 0x03, 0x01, 0x13, 0x8a, 0x6b,
     0x3a, 0x91, 0x11, 0x41, 0x4f, 0x67, 0xdc, 0xea,
     0x97, 0xf2, 0xcf, 0xce, 0xf0, 0xb4, 0xe6, 0x73,
     0x96, 0xac, 0x74, 0x22, 0xe7, 0xad, 0x35, 0x85,
     0xe2, 0xf9, 0x37, 0xe8, 0x1c, 0x75, 0xdf, 0x6e,
     0x47, 0xf1, 0x1a, 0x71, 0x1d, 0x29, 0xc5, 0x89,
     0x6f, 0xb7, 0x62, 0x0e, 0xaa, 0x18, 0xbe, 0x1b,
     0xfc, 0x56, 0x3e, 0x4b, 0xc6, 0xd2, 0x79, 0x20,
     0x9a, 0xdb, 0xc0, 0xfe, 0x78, 0xcd, 0x5a, 0xf4,
     0x1f, 0xdd, 0xa8, 0x33, 0x88, 0x07, 0xc7, 0x31,
     0xb1, 0x12, 0x10, 0x59, 0x27, 0x80, 0xec, 0x5f,
     0x60, 0x51, 0x7f, 0xa9, 0x19, 0xb5, 0x4a, 0x0d,
     0x2d, 0xe5, 0x7a, 0x9f, 0x93, 0xc9, 0x9c, 0xef,
     0xa0, 0xe0, 0x3b, 0x4d, 0xae, 0x2a, 0xf5, 0xb0,
     0xc8, 0xeb, 0xbb, 0x3c, 0x83, 0x53, 0x99, 0x61,
     0x17, 0x2b, 0x04, 0x7e, 0xba, 0x77, 0xd6, 0x26,
     0xe1, 0x69, 0x14, 0x63, 0x55, 0x21, 0x0c, 0x7d
    ]"

text \<open>Modelled from the spec: the two substitutions, as lookups in the tables.\<close>

definition sbox :: "u8 \<Rightarrow> u8" where
  "sbox x = Sbox_table ! unat x"

definition inv_sbox :: "u8 \<Rightarrow> u8" where
  "inv_sbox x = InvSbox_table ! unat x"

text \<open>
  Modelled from the spec: the round constants of section 4.1, one word per round
  index, the constant in the most significant byte.
\<close>

definition rcon :: "u32 list" where
  "rcon = [0x01000000, 0x02000000, 0x04000000, 0x08000000, 0x10000000,
           0x20000000, 0x40000000, 0x80000000, 0x1b000000, 0x36000000]"

text \<open>
  Modelled from the spec: multiplication in GF(2^8) modulo x^8+x^4+x^3+x+1 (section
  4.1), as the on-the-fly routine: \<open>xtime\<close> multiplies by x, the other factors of
  MixColumns and InvMixColumns are sums of its powers.
\<close>

definition xtime :: "u8 \<Rightarrow> u8" where
  "xtime a = (if bit a 7 then push_bit 1 a XOR 0x1b else push_bit 1 a)"

definition mul2 :: "u8 \<Rightarrow> u8" where "mul2 a = xtime a"
definition mul3 :: "u8 \<Rightarrow> u8" where "mul3 a = xtime a XOR a"
definition mul9 :: "u8 \<Rightarrow> u8" where "mul9 a = xtime (xtime (xtime a)) XOR a"
definition mul11 :: "u8 \<Rightarrow> u8" where "mul11 a = xtime (xtime (xtime a)) XOR xtime a XOR a"
definition mul13 :: "u8 \<Rightarrow> u8" where "mul13 a = xtime (xtime (xtime a)) XOR xtime (xtime a) XOR a"
definition mul14 :: "u8 \<Rightarrow> u8" where
  "mul14 a = xtime (xtime (xtime a)) XOR xtime (xtime a) XOR xtime a"






section \<open>The cipher core\<close>

text \<open>
  The four routines that the binding calls are declared in rijndael-alg-fst.h and
  defined in rijndael-alg-fst.c; neither file is under src/. Their signatures are
  those of the call sites in stub.c: the schedule is an array of 32-bit words, the
  round count an int, a block sixteen bytes. Their bodies are modelled from
  sections 4.2 to 4.4 of the spec.
\<close>

subsection \<open>Words and bytes\<close>

text \<open>
  Modelled from the spec: the key and the round keys as 32-bit words (sections 3 and
  4.2). A word holds four bytes, the first in its most significant byte.
\<close>

definition word_of_bytes :: "u8 \<Rightarrow> u8 \<Rightarrow> u8 \<Rightarrow> u8 \<Rightarrow> u32" where
  "word_of_bytes a b c d =
     push_bit 24 (ucast a) OR push_bit 16 (ucast b) OR push_bit 8 (ucast c) OR ucast d"

definition bytes_of_word :: "u32 \<Rightarrow> u8 list" where
  "bytes_of_word w =
     [ucast (drop_bit 24 w), ucast (drop_bit 16 w), ucast (drop_bit 8 w), ucast w]"

fun words_of_bytes :: "u8 list \<Rightarrow> u32 list" where
  "words_of_bytes (a # b # c # d # bs) = word_of_bytes a b c d # words_of_bytes bs"
| "words_of_bytes bs = []"

definition bytes_of_words :: "u32 list \<Rightarrow> u8 list" where
  "bytes_of_words ws = concat (map bytes_of_word ws)"

subsection \<open>Key schedule\<close>

text \<open>
  Modelled from the spec: the rotation of a word by one byte and the substitution of
  each of its bytes (section 4.2).
\<close>

definition RotWord :: "u32 \<Rightarrow> u32" where
  "RotWord w = push_bit 8 w OR drop_bit 24 w"

definition SubWord :: "u32 \<Rightarrow> u32" where
  "SubWord w = words_of_bytes (map sbox (bytes_of_word w)) ! 0"

text \<open>
  Modelled from the spec: one step of the expansion of section 4.2, the word
  \<open>w[i]\<close> from \<open>w[i-1]\<close> and \<open>w[i-Nk]\<close>.
\<close>

definition next_word :: "nat \<Rightarrow> nat \<Rightarrow> u32 list \<Rightarrow> u32" where
  "next_word Nk i w =
     (let temp = w ! (i - 1);
          temp' = (if i mod Nk = 0 then SubWord (RotWord temp) XOR rcon ! (i div Nk - 1)
                   else if 6 < Nk \<and> i mod Nk = 4 then SubWord temp
                   else temp)
      in w ! (i - Nk) XOR temp')"

text \<open>
  Modelled from the spec: "continue until \<open>4*(Nr+1)\<close> words are produced". The
  words \<open>w[0..i-1]\<close> are there, \<open>n\<close> are wanted.
\<close>

function expand_key :: "nat \<Rightarrow> nat \<Rightarrow> nat \<Rightarrow> u32 list \<Rightarrow> u32 list" where
  "expand_key Nk n i w =
     (if i < n then expand_key Nk n (i + 1) (w @ [next_word Nk i w]) else w)"
  by pat_completeness auto
termination
  by (relation "measure (\<lambda>(Nk, n, i, w). n - i)") auto

declare expand_key.simps [simp del]

text \<open>
  Modelled from the spec: \<open>camlpdf_rijndaelKeySetupEnc(rk, cipherKey, keyBits)\<close>,
  section 4.2, encryption direction. The result is the words written to \<open>rk\<close>
  and the int returned, the round count \<open>Nr\<close>. For a \<open>keyBits\<close> other than
  128, 192 and 256 the spec has no schedule and no round count, and the routine is
  not in the repository: what the model gives there, no word written and 0 returned,
  stands for a behaviour that is not known. The claims below use of it only that the
  routine returns and writes no more than the 60 words of the buffer.
\<close>

definition camlpdf_rijndaelKeySetupEnc :: "u8 list \<Rightarrow> int \<Rightarrow> u32 list \<times> int" where
  "camlpdf_rijndaelKeySetupEnc cipherKey keyBits =
     (if keyBits = 128
      then (expand_key 4 (4 * (10 + 1)) 4 (words_of_bytes (take 16 cipherKey)), 10)
      else if keyBits = 192
      then (expand_key 6 (4 * (12 + 1)) 6 (words_of_bytes (take 24 cipherKey)), 12)
      else if keyBits = 256
      then (expand_key 8 (4 * (14 + 1)) 8 (words_of_bytes (take 32 cipherKey)), 14)
      else ([], 0))"

subsection \<open>The state and the round steps\<close>

text \<open>
  Modelled from the spec: the steps of sections 4.3 and 4.4. The state is the block
  itself, sixteen bytes in column-major order: the byte of row \<open>r\<close> and column
  \<open>c\<close> is at index \<open>4 * c + r\<close>. A round key is four consecutive words of the
  schedule.
\<close>

definition round_key :: "u32 list \<Rightarrow> nat \<Rightarrow> u8 list" where
  "round_key rk r = bytes_of_words (take 4 (drop (4 * r) rk))"

definition AddRoundKey :: "u8 list \<Rightarrow> u8 list \<Rightarrow> u8 list" where
  "AddRoundKey st k = map2 (XOR) st k"

definition SubBytes :: "u8 list \<Rightarrow> u8 list" where
  "SubBytes st = map sbox st"

definition InvSubBytes :: "u8 list \<Rightarrow> u8 list" where
  "InvSubBytes st = map inv_sbox st"

text \<open>
  Modelled from the spec: ShiftRows. Row \<open>r\<close> is rotated left by \<open>r\<close>: the new
  column \<open>c\<close> holds the old \<open>c + r\<close>.
\<close>

definition ShiftRows :: "u8 list \<Rightarrow> u8 list" where
  "ShiftRows st = map (\<lambda>i. st ! (4 * ((i div 4 + i mod 4) mod 4) + i mod 4)) [0..<16]"

text \<open>
  Modelled from the spec: InvShiftRows. Row \<open>r\<close> is rotated right by \<open>r\<close>: the new
  column \<open>c\<close> holds the old \<open>c - r\<close>.
\<close>

definition InvShiftRows :: "u8 list \<Rightarrow> u8 list" where
  "InvShiftRows st = map (\<lambda>i. st ! (4 * ((i div 4 + 4 - i mod 4) mod 4) + i mod 4)) [0..<16]"

text \<open>
  Modelled from the spec: MixColumns, the product of each column with the matrix
  (2 3 1 1 / 1 2 3 1 / 1 1 2 3 / 3 1 1 2) over GF(2^8).
\<close>

definition MixColumn :: "u8 \<Rightarrow> u8 \<Rightarrow> u8 \<Rightarrow> u8 \<Rightarrow> u8 list" where
  "MixColumn a b c d =
     [mul2 a XOR mul3 b XOR c XOR d,
      a XOR mul2 b XOR mul3 c XOR d,
      a XOR b XOR mul2 c XOR mul3 d,
      mul3 a XOR b XOR c XOR mul2 d]"

text \<open>
  Modelled from the spec: InvMixColumns, the product of each column with the inverse
  matrix (14 11 13 9 / 9 14 11 13 / 13 9 14 11 / 11 13 9 14).
\<close>

definition InvMixColumn :: "u8 \<Rightarrow> u8 \<Rightarrow> u8 \<Rightarrow> u8 \<Rightarrow> u8 list" where
  "InvMixColumn a b c d =
     [mul14 a XOR mul11 b XOR mul13 c XOR mul9 d,
      mul9 a XOR mul14 b XOR mul11 c XOR mul13 d,
      mul13 a XOR mul9 b XOR mul14 c XOR mul11 d,
      mul11 a XOR mul13 b XOR mul9 c XOR mul14 d]"

fun MixColumns :: "u8 list \<Rightarrow> u8 list" where
  "MixColumns (a # b # c # d # st) = MixColumn a b c d @ MixColumns st"
| "MixColumns st = []"

fun InvMixColumns :: "u8 list \<Rightarrow> u8 list" where
  "InvMixColumns (a # b # c # d # st) = InvMixColumn a b c d @ InvMixColumns st"
| "InvMixColumns st = []"

subsection \<open>Encryption and decryption of a block\<close>

text \<open>
  Modelled from the spec: the rounds \<open>r, \<dots>, Nr - 1\<close> of section 4.3, each
  SubBytes, ShiftRows, MixColumns, AddRoundKey with the key of the round.
\<close>

function enc_rounds :: "u32 list \<Rightarrow> nat \<Rightarrow> nat \<Rightarrow> u8 list \<Rightarrow> u8 list" where
  "enc_rounds rk Nr r st =
     (if r < Nr
      then enc_rounds rk Nr (r + 1)
             (AddRoundKey (MixColumns (ShiftRows (SubBytes st))) (round_key rk r))
      else st)"
  by pat_completeness auto
termination
  by (relation "measure (\<lambda>(rk, Nr, r, st). Nr - r)") auto

declare enc_rounds.simps [simp del]

text \<open>
  Modelled from the spec: \<open>camlpdf_rijndaelEncrypt(rk, Nr, pt, ct)\<close>, section 4.3.
  The result is the block written to \<open>ct\<close>.
\<close>

definition camlpdf_rijndaelEncrypt :: "u32 list \<Rightarrow> nat \<Rightarrow> u8 list \<Rightarrow> u8 list" where
  "camlpdf_rijndaelEncrypt rk Nr pt =
     (let st = AddRoundKey pt (round_key rk 0);
          st = enc_rounds rk Nr 1 st
      in AddRoundKey (ShiftRows (SubBytes st)) (round_key rk Nr))"


text \<open>
  Modelled from the spec: \<open>camlpdf_rijndaelKeySetupDec(rk, cipherKey, keyBits)\<close>,
  section 4.2, decryption direction: the round keys of the encryption schedule in
  reverse order, InvMixColumns applied to every round key strictly between the first
  and the last.
\<close>

definition dec_round_key :: "u32 list \<Rightarrow> nat \<Rightarrow> nat \<Rightarrow> u32 list" where
  "dec_round_key rk Nr j =
     (let k = take 4 (drop (4 * (Nr - j)) rk)
      in if 0 < j \<and> j < Nr then words_of_bytes (InvMixColumns (bytes_of_words k)) else k)"

definition camlpdf_rijndaelKeySetupDec :: "u8 list \<Rightarrow> int \<Rightarrow> u32 list \<times> int" where
  "camlpdf_rijndaelKeySetupDec cipherKey keyBits =
     (let (rk, Nr) = camlpdf_rijndaelKeySetupEnc cipherKey keyBits
      in (concat (map (dec_round_key rk (nat Nr)) [0..<nat Nr + 1]), Nr))"

text \<open>
  Modelled from the spec: the rounds \<open>r, \<dots>, Nr - 1\<close> of section 4.4. The round is
  InvShiftRows, InvSubBytes, InvMixColumns, AddRoundKey: the round keys of the
  decryption schedule have been through InvMixColumns (section 4.2, the equivalent
  inverse cipher), so the key is added after InvMixColumns. Section 4.4 lists
  AddRoundKey before InvMixColumns; with the schedule of section 4.2 that order does
  not invert the encryption (lemma \<open>listed_round_order_not_inverse\<close> below), and the
  invariant of section 3 and the guarantee of section 4.4 require that it does.
\<close>

function dec_rounds :: "u32 list \<Rightarrow> nat \<Rightarrow> nat \<Rightarrow> u8 list \<Rightarrow> u8 list" where
  "dec_rounds rk Nr r st =
     (if r < Nr
      then dec_rounds rk Nr (r + 1)
             (AddRoundKey (InvMixColumns (InvSubBytes (InvShiftRows st))) (round_key rk r))
      else st)"
  by pat_completeness auto
termination
  by (relation "measure (\<lambda>(rk, Nr, r, st). Nr - r)") auto

declare dec_rounds.simps [simp del]

text \<open>
  Modelled from the spec: \<open>camlpdf_rijndaelDecrypt(rk, Nr, ct, pt)\<close>, section 4.4.
  The result is the block written to \<open>pt\<close>.
\<close>

definition camlpdf_rijndaelDecrypt :: "u32 list \<Rightarrow> nat \<Rightarrow> u8 list \<Rightarrow> u8 list" where
  "camlpdf_rijndaelDecrypt rk Nr ct =
     (let st = AddRoundKey ct (round_key rk 0);
          st = dec_rounds rk Nr 1 st
      in AddRoundKey (InvSubBytes (InvShiftRows st)) (round_key rk Nr))"

text \<open>
  Modelled from the spec: the rounds in the order section 4.4 lists them, AddRoundKey
  before InvMixColumns. Nothing but the lemma \<open>listed_round_order_not_inverse\<close> uses
  them.
\<close>

function listed_dec_rounds :: "u32 list \<Rightarrow> nat \<Rightarrow> nat \<Rightarrow> u8 list \<Rightarrow> u8 list" where
  "listed_dec_rounds rk Nr r st =
     (if r < Nr
      then listed_dec_rounds rk Nr (r + 1)
             (InvMixColumns (AddRoundKey (InvSubBytes (InvShiftRows st)) (round_key rk r)))
      else st)"
  by pat_completeness auto
termination
  by (relation "measure (\<lambda>(rk, Nr, r, st). Nr - r)") auto

declare listed_dec_rounds.simps [simp del]

definition listed_decrypt :: "u32 list \<Rightarrow> nat \<Rightarrow> u8 list \<Rightarrow> u8 list" where
  "listed_decrypt rk Nr ct =
     (let st = AddRoundKey ct (round_key rk 0);
          st = listed_dec_rounds rk Nr 1 st
      in AddRoundKey (InvSubBytes (InvShiftRows st)) (round_key rk Nr))"

section \<open>The binding: stub.c\<close>

text \<open>
  Modelled from the spec: the macro \<open>MAXNR\<close> of rijndael-alg-fst.h, the largest
  round count (section 3: \<open>Nr\<close> is 10, 12 or 14).
\<close>

definition MAXNR :: nat where
  "MAXNR = 14"

text \<open>\<open>sizeof(u32)\<close> is 4.\<close>

definition Cooked_key_NR_offset :: nat where
  "Cooked_key_NR_offset = (4 * (MAXNR + 1)) * 4"

definition Cooked_key_size :: nat where
  "Cooked_key_size = Cooked_key_NR_offset + 1"

definition moonbit_make_bytes :: "nat \<Rightarrow> u8 \<Rightarrow> u8 list" where
  "moonbit_make_bytes n v = replicate n v"

text \<open>
  The cast \<open>(u32 *)ckey\<close>: the words of the schedule lie in the buffer in the byte
  order of the host, here the least significant byte first. No claim depends on the
  order.
\<close>

definition store_u32 :: "u32 \<Rightarrow> u8 list" where
  "store_u32 w = rev (bytes_of_word w)"

fun load_words :: "u8 list \<Rightarrow> u32 list" where
  "load_words (a # b # c # d # bs) = word_of_bytes d c b a # load_words bs"
| "load_words bs = []"

definition store_words :: "u8 list \<Rightarrow> u32 list \<Rightarrow> u8 list" where
  "store_words buf ws = (let bs = concat (map store_u32 ws) in bs @ drop (length bs) buf)"

text \<open>
  \<open>8 * key_len\<close> is a \<open>size_t\<close> passed for an \<open>int\<close> parameter: the low 32 bits,
  read as two's complement.
\<close>

definition key_bits :: "nat \<Rightarrow> int" where
  "key_bits key_len = sint (word_of_nat (8 * key_len) :: 32 word)"

definition camlpdf_caml_aes_cook_encrypt_key :: "u8 list \<Rightarrow> u8 list" where
  "camlpdf_caml_aes_cook_encrypt_key key =
     (let ckey_len = Cooked_key_size;
          ckey = moonbit_make_bytes ckey_len 0;
          key_len = length key;
          (rk, nr) = camlpdf_rijndaelKeySetupEnc key (key_bits key_len);
          ckey = store_words ckey rk
      in ckey[Cooked_key_NR_offset := word_of_int nr])"

definition camlpdf_caml_aes_cook_decrypt_key :: "u8 list \<Rightarrow> u8 list" where
  "camlpdf_caml_aes_cook_decrypt_key key =
     (let ckey_len = Cooked_key_size;
          ckey = moonbit_make_bytes ckey_len 0;
          key_len = length key;
          (rk, nr) = camlpdf_rijndaelKeySetupDec key (key_bits key_len);
          ckey = store_words ckey rk
      in ckey[Cooked_key_NR_offset := word_of_int nr])"

text \<open>
  The two functions differ in the key setup routine they call and in nothing else.
  \<open>cook_key_with\<close> is their body with the routine for a parameter: what the
  functions do with whatever the routine writes and returns.
\<close>

definition cook_key_with :: "(u8 list \<Rightarrow> int \<Rightarrow> u32 list \<times> int) \<Rightarrow> u8 list \<Rightarrow> u8 list" where
  "cook_key_with KeySetup key =
     (let ckey_len = Cooked_key_size;
          ckey = moonbit_make_bytes ckey_len 0;
          key_len = length key;
          (rk, nr) = KeySetup key (key_bits key_len);
          ckey = store_words ckey rk
      in ckey[Cooked_key_NR_offset := word_of_int nr])"

text \<open>
  The buffers \<open>ckey\<close>, \<open>src\<close> and \<open>dst\<close> are objects of the caller, and two of
  them may be the same object: the store maps an object to its bytes. The routines
  get the pointers \<open>src + src_ofs\<close> and \<open>dst + dst_ofs\<close> and no length. In C,
  reading or writing outside an object is undefined; the model has no result
  (\<open>None\<close>) there.
\<close>

type_synonym store = "nat \<Rightarrow> u8 list option"

definition in_bounds :: "u8 list \<Rightarrow> int \<Rightarrow> bool" where
  "in_bounds buf ofs \<longleftrightarrow> 0 \<le> ofs \<and> nat ofs + 16 \<le> length buf"

definition read_block :: "u8 list \<Rightarrow> int \<Rightarrow> u8 list" where
  "read_block buf ofs = take 16 (drop (nat ofs) buf)"

definition write_block :: "u8 list \<Rightarrow> int \<Rightarrow> u8 list \<Rightarrow> u8 list" where
  "write_block buf ofs blk = take (nat ofs) buf @ blk @ drop (nat ofs + 16) buf"

text \<open>
  The schedule is read as the stub passes it: the words from the start of \<open>ckey\<close>,
  round keys \<open>0..Nr\<close> of them, and \<open>Nr\<close> from the byte at \<open>Cooked_key_NR_offset\<close>.
\<close>

definition schedule_in_bounds :: "u8 list \<Rightarrow> bool" where
  "schedule_in_bounds ck \<longleftrightarrow>
     Cooked_key_NR_offset < length ck \<and>
     16 * (unat (ck ! Cooked_key_NR_offset) + 1) \<le> length ck"

definition camlpdf_caml_aes_encrypt ::
  "store \<Rightarrow> nat \<Rightarrow> nat \<Rightarrow> int \<Rightarrow> nat \<Rightarrow> int \<Rightarrow> store option" where
  "camlpdf_caml_aes_encrypt h ckey src src_ofs dst dst_ofs =
     (case (h ckey, h src, h dst) of
        (Some ck, Some s, Some d) \<Rightarrow>
          if schedule_in_bounds ck \<and> in_bounds s src_ofs \<and> in_bounds d dst_ofs
          then Some (h(dst \<mapsto> write_block d dst_ofs
                 (camlpdf_rijndaelEncrypt (load_words ck) (unat (ck ! Cooked_key_NR_offset))
                    (read_block s src_ofs))))
          else None
      | _ \<Rightarrow> None)"

definition camlpdf_caml_aes_decrypt ::
  "store \<Rightarrow> nat \<Rightarrow> nat \<Rightarrow> int \<Rightarrow> nat \<Rightarrow> int \<Rightarrow> store option" where
  "camlpdf_caml_aes_decrypt h ckey src src_ofs dst dst_ofs =
     (case (h ckey, h src, h dst) of
        (Some ck, Some s, Some d) \<Rightarrow>
          if schedule_in_bounds ck \<and> in_bounds s src_ofs \<and> in_bounds d dst_ofs
          then Some (h(dst \<mapsto> write_block d dst_ofs
                 (camlpdf_rijndaelDecrypt (load_words ck) (unat (ck ! Cooked_key_NR_offset))
                    (read_block s src_ofs))))
          else None
      | _ \<Rightarrow> None)"

section \<open>Properties of the tables and of the round steps\<close>



lemma xor_cancel_left: "a XOR (a XOR b) = (b :: u8)"
  by (simp add: xor.assoc [symmetric])

lemmas xor_norm = xor.assoc xor.commute xor.left_commute xor_cancel_left

lemma xtime_xor: "xtime (a XOR b) = xtime a XOR xtime b"
  by (simp add: xtime_def bit_xor_iff xor_norm)

lemmas mul_defs = mul2_def mul3_def mul9_def mul11_def mul13_def mul14_def


lemma InvMixColumn_MixColumn: "InvMixColumns (MixColumn a b c d) = [a, b, c, d]"
  by (simp add: MixColumn_def InvMixColumn_def mul_defs xtime_xor xor_norm)


text \<open>A block is a list of sixteen bytes.\<close>

lemma block_cases:
  assumes "length st = 16"
  obtains s0 s1 s2 s3 s4 s5 s6 s7 s8 s9 s10 s11 s12 s13 s14 s15
  where "st = [s0, s1, s2, s3, s4, s5, s6, s7, s8, s9, s10, s11, s12, s13, s14, s15]"
  using assms by (auto simp: eval_nat_numeral length_Suc_conv)

lemma ShiftRows_block:
  "ShiftRows [s0, s1, s2, s3, s4, s5, s6, s7, s8, s9, s10, s11, s12, s13, s14, s15] =
     [s0, s5, s10, s15, s4, s9, s14, s3, s8, s13, s2, s7, s12, s1, s6, s11]"
  by (simp add: ShiftRows_def upt_rec)

lemma InvShiftRows_block:
  "InvShiftRows [s0, s1, s2, s3, s4, s5, s6, s7, s8, s9, s10, s11, s12, s13, s14, s15] =
     [s0, s13, s10, s7, s4, s1, s14, s11, s8, s5, s2, s15, s12, s9, s6, s3]"
  by (simp add: InvShiftRows_def upt_rec)

lemma length_ShiftRows [simp]: "length (ShiftRows st) = 16"
  by (simp add: ShiftRows_def)

lemma length_InvShiftRows [simp]: "length (InvShiftRows st) = 16"
  by (simp add: InvShiftRows_def)

lemma length_SubBytes [simp]: "length (SubBytes st) = length st"
  by (simp add: SubBytes_def)

lemma length_InvSubBytes [simp]: "length (InvSubBytes st) = length st"
  by (simp add: InvSubBytes_def)

lemma length_AddRoundKey [simp]: "length (AddRoundKey st k) = min (length st) (length k)"
  by (simp add: AddRoundKey_def)

lemma length_MixColumns [simp]: "length st = 16 \<Longrightarrow> length (MixColumns st) = 16"
  by (erule block_cases) (simp add: MixColumn_def)

lemma length_InvMixColumns [simp]: "length st = 16 \<Longrightarrow> length (InvMixColumns st) = 16"
  by (erule block_cases) (simp add: InvMixColumn_def)






subsection \<open>The tables are those of the construction\<close>







subsection \<open>Words and bytes\<close>


lemma word_of_bytes_of_word:
  assumes "bytes_of_word w = [a, b, c, d]"
  shows "word_of_bytes a b c d = w"
proof -
  have "word_of_bytes (ucast (drop_bit 24 w)) (ucast (drop_bit 16 w))
          (ucast (drop_bit 8 w)) (ucast w) = w"
    unfolding word_of_bytes_def
  proof (rule bit_word_eqI)
    fix n :: nat
    assume "n < LENGTH(32)"
    then consider "n < 8" | "8 \<le> n" "n < 16" | "16 \<le> n" "n < 24" | "24 \<le> n" "n < 32"
      by fastforce
    then show "bit (push_bit 24 (ucast (ucast (drop_bit 24 w) :: u8)) OR
                    push_bit 16 (ucast (ucast (drop_bit 16 w) :: u8)) OR
                    push_bit 8 (ucast (ucast (drop_bit 8 w) :: u8)) OR
                    (ucast (ucast w :: u8) :: u32)) n = bit w n"
      by cases (auto simp add: bit_simps)
  qed
  with assms show ?thesis
    by (simp add: bytes_of_word_def)
qed

lemma length_bytes_of_word [simp]: "length (bytes_of_word w) = 4"
  by (simp add: bytes_of_word_def)

lemma length_bytes_of_words [simp]: "length (bytes_of_words ws) = 4 * length ws"
  by (induction ws) (simp_all add: bytes_of_words_def)

lemma bytes_of_words_Cons: "bytes_of_words (w # ws) = bytes_of_word w @ bytes_of_words ws"
  by (simp add: bytes_of_words_def)

lemma words_of_bytes_of_words: "words_of_bytes (bytes_of_words ws) = ws"
proof (induction ws)
  case Nil
  show ?case by (simp add: bytes_of_words_def)
next
  case (Cons w ws)
  obtain a b c d where w: "bytes_of_word w = [a, b, c, d]"
    by (simp add: bytes_of_word_def)
  with Cons show ?case
    by (simp add: bytes_of_words_Cons word_of_bytes_of_word)
qed


lemma length_words_of_block: "length bs = 16 \<Longrightarrow> length (words_of_bytes bs) = 4"
  by (erule block_cases) simp

subsection \<open>The rounds as folds\<close>

lemma enc_rounds_fold:
  "enc_rounds rk Nr r st =
     fold (\<lambda>i s. AddRoundKey (MixColumns (ShiftRows (SubBytes s))) (round_key rk i)) [r..<Nr] st"
proof (induction rk Nr r st rule: enc_rounds.induct)
  case (1 rk Nr r st)
  show ?case
  proof (cases "r < Nr")
    case True
    with "1" show ?thesis
      by (subst enc_rounds.simps) (simp add: upt_rec [of r Nr])
  next
    case False
    then show ?thesis
      by (subst enc_rounds.simps) simp
  qed
qed

lemma dec_rounds_fold:
  "dec_rounds rk Nr r st =
     fold (\<lambda>i s. AddRoundKey (InvMixColumns (InvSubBytes (InvShiftRows s))) (round_key rk i))
       [r..<Nr] st"
proof (induction rk Nr r st rule: dec_rounds.induct)
  case (1 rk Nr r st)
  show ?case
  proof (cases "r < Nr")
    case True
    with "1" show ?thesis
      by (subst dec_rounds.simps) (simp add: upt_rec [of r Nr])
  next
    case False
    then show ?thesis
      by (subst dec_rounds.simps) simp
  qed
qed

subsection \<open>Decryption rounds undo encryption rounds\<close>

lemma length_enc_step:
  "length st = 16 \<Longrightarrow> length k = 16 \<Longrightarrow>
   length (AddRoundKey (MixColumns (ShiftRows (SubBytes st))) k) = 16"
  by simp






subsection \<open>The key schedules\<close>

lemma length_words_of_bytes: "length (words_of_bytes bs) = length bs div 4"
  by (induction bs rule: words_of_bytes.induct) simp_all

lemma length_expand_key: "length (expand_key Nk n i w) = length w + (n - i)"
proof (induction Nk n i w rule: expand_key.induct)
  case (1 Nk n i w)
  show ?case
  proof (cases "i < n")
    case True
    with "1" show ?thesis
      by (subst expand_key.simps) simp
  next
    case False
    then show ?thesis
      by (subst expand_key.simps) simp
  qed
qed

lemma key_bits_valid [simp]: "key_bits 16 = 128" "key_bits 24 = 192" "key_bits 32 = 256"
  by (simp_all add: key_bits_def)

text \<open>The round count of a key of 16, 24 or 32 bytes.\<close>

lemma KeySetupEnc_valid:
  assumes "length key = 16 \<or> length key = 24 \<or> length key = 32"
  shows "\<exists>rk. camlpdf_rijndaelKeySetupEnc key (key_bits (length key)) =
                (rk, int (length key div 4 + 6)) \<and>
              length rk = 4 * (length key div 4 + 6 + 1)"
  using assms
  by (auto simp add: camlpdf_rijndaelKeySetupEnc_def length_expand_key length_words_of_bytes)

lemma length_round_key:
  "4 * (r + 1) \<le> length rk \<Longrightarrow> length (round_key rk r) = 16"
  by (simp add: round_key_def)


lemma length_dec_round_key:
  assumes "4 * (Nr + 1) \<le> length rk" and "j \<le> Nr"
  shows "length (dec_round_key rk Nr j) = 4"
proof -
  have "length (take 4 (drop (4 * (Nr - j)) rk)) = 4"
    using assms by simp
  then show ?thesis
    by (simp add: dec_round_key_def Let_def length_words_of_block del: length_take)
qed



subsection \<open>The schedule buffer\<close>

lemma length_store_u32 [simp]: "length (store_u32 w) = 4"
  by (simp add: store_u32_def)

lemma length_concat_store [simp]: "length (concat (map store_u32 ws)) = 4 * length ws"
  by (induction ws) simp_all

lemma load_words_store: "load_words (concat (map store_u32 ws) @ bs) = ws @ load_words bs"
proof (induction ws)
  case Nil
  show ?case by simp
next
  case (Cons w ws)
  obtain a b c d where w: "bytes_of_word w = [a, b, c, d]"
    by (simp add: bytes_of_word_def)
  with Cons show ?case
    by (simp add: store_u32_def word_of_bytes_of_word)
qed

lemma Cooked_key_consts [simp]: "Cooked_key_NR_offset = 240" "Cooked_key_size = 241" "MAXNR = 14"
  by (simp_all add: Cooked_key_size_def Cooked_key_NR_offset_def MAXNR_def)

text \<open>What both derivation functions build from the words and the round count they get.\<close>

lemma cooked_layout:
  assumes "4 * length ws \<le> 240"
  shows "(store_words (moonbit_make_bytes Cooked_key_size 0) ws)[Cooked_key_NR_offset := v] =
           concat (map store_u32 ws) @ replicate (240 - 4 * length ws) 0 @ [v]"
proof -
  let ?bs = "concat (map store_u32 ws)"
  have "241 - 4 * length ws = Suc (240 - 4 * length ws)"
    using assms by simp
  then have "store_words (moonbit_make_bytes Cooked_key_size 0) ws =
      (?bs @ replicate (240 - 4 * length ws) 0) @ [0]"
    by (simp add: store_words_def moonbit_make_bytes_def replicate_append_same)
  moreover have "length (?bs @ replicate (240 - 4 * length ws) 0) = 240"
    using assms by simp
  ultimately show ?thesis
    by (metis Cooked_key_consts(1) append.assoc list_update_length)
qed

lemma length_cook_encrypt [simp]:
  "length (camlpdf_caml_aes_cook_encrypt_key key) = Cooked_key_size"
  by (simp add: camlpdf_caml_aes_cook_encrypt_key_def store_words_def moonbit_make_bytes_def
      Let_def camlpdf_rijndaelKeySetupEnc_def length_expand_key length_words_of_bytes
      split: prod.split)


lemma length_concat_chunks:
  "\<forall>x \<in> set xss. length x = n \<Longrightarrow> length (concat xss) = n * length xss"
  by (induction xss) simp_all

lemma length_dec_schedule:
  assumes "length rk = 4 * (Nr + 1)"
  shows "length (concat (map (dec_round_key rk Nr) [0..<Nr + 1])) = 4 * (Nr + 1)"
proof -
  have "\<forall>x \<in> set (map (dec_round_key rk Nr) [0..<Nr + 1]). length x = 4"
    using assms by (auto simp add: length_dec_round_key)
  then have "length (concat (map (dec_round_key rk Nr) [0..<Nr + 1])) =
      4 * length (map (dec_round_key rk Nr) [0..<Nr + 1])"
    by (rule length_concat_chunks)
  then show ?thesis
    by simp
qed

lemma cook_encrypt_valid:
  assumes "length key = 16 \<or> length key = 24 \<or> length key = 32"
  obtains rk where
    "camlpdf_rijndaelKeySetupEnc key (key_bits (length key)) = (rk, int (length key div 4 + 6))"
    "length rk = 4 * (length key div 4 + 6 + 1)"
    "camlpdf_caml_aes_cook_encrypt_key key =
       concat (map store_u32 rk) @ replicate (240 - 4 * length rk) 0 @
       [word_of_nat (length key div 4 + 6)]"
proof -
  from KeySetupEnc_valid [OF assms] obtain rk where
    rk: "camlpdf_rijndaelKeySetupEnc key (key_bits (length key)) = (rk, int (length key div 4 + 6))"
    and len: "length rk = 4 * (length key div 4 + 6 + 1)"
    by blast
  have "4 * length rk \<le> 240"
    using assms len by auto
  then have "camlpdf_caml_aes_cook_encrypt_key key =
       concat (map store_u32 rk) @ replicate (240 - 4 * length rk) 0 @
       [word_of_nat (length key div 4 + 6)]"
    unfolding camlpdf_caml_aes_cook_encrypt_key_def Let_def rk prod.case
    by (simp only: cooked_layout of_int_of_nat_eq)
  with rk len show ?thesis
    by (rule that)
qed

lemma cook_decrypt_valid:
  assumes "length key = 16 \<or> length key = 24 \<or> length key = 32"
  obtains rk where
    "camlpdf_rijndaelKeySetupEnc key (key_bits (length key)) = (rk, int (length key div 4 + 6))"
    "length rk = 4 * (length key div 4 + 6 + 1)"
    "camlpdf_caml_aes_cook_decrypt_key key =
       concat (map store_u32
         (concat (map (dec_round_key rk (length key div 4 + 6)) [0..<length key div 4 + 6 + 1]))) @
       replicate (240 - 4 * length rk) 0 @ [word_of_nat (length key div 4 + 6)]"
proof -
  let ?Nr = "length key div 4 + 6"
  from KeySetupEnc_valid [OF assms] obtain rk where
    rk: "camlpdf_rijndaelKeySetupEnc key (key_bits (length key)) = (rk, int ?Nr)"
    and len: "length rk = 4 * (?Nr + 1)"
    by blast
  let ?dk = "concat (map (dec_round_key rk ?Nr) [0..<?Nr + 1])"
  have dlen: "length ?dk = length rk"
    using length_dec_schedule [OF len] len by simp
  have "4 * length ?dk \<le> 240"
    unfolding dlen using assms len by auto
  then have "(store_words (moonbit_make_bytes Cooked_key_size 0) ?dk)
               [Cooked_key_NR_offset := word_of_nat ?Nr] =
       concat (map store_u32 ?dk) @ replicate (240 - 4 * length ?dk) 0 @ [word_of_nat ?Nr]"
    by (rule cooked_layout)
  then have "camlpdf_caml_aes_cook_decrypt_key key =
       concat (map store_u32 ?dk) @ replicate (240 - 4 * length rk) 0 @ [word_of_nat ?Nr]"
    unfolding camlpdf_caml_aes_cook_decrypt_key_def camlpdf_rijndaelKeySetupDec_def Let_def rk
      prod.case dlen
    by (simp only: nat_int of_int_of_nat_eq)
  with rk len show ?thesis
    by (rule that)
qed

subsection \<open>Calls with a schedule buffer\<close>

lemma round_key_append:
  "4 * (r + 1) \<le> length rk \<Longrightarrow> round_key (rk @ ex) r = round_key rk r"
  by (simp add: round_key_def)

text \<open>The routines read the round keys \<open>0..Nr\<close> of the schedule and nothing behind them.\<close>

lemma encrypt_prefix:
  assumes "length rk = 4 * (Nr + 1)"
  shows "camlpdf_rijndaelEncrypt (rk @ ex) Nr pt = camlpdf_rijndaelEncrypt rk Nr pt"
proof -
  have keys: "round_key (rk @ ex) r = round_key rk r" if "r \<le> Nr" for r
    using that assms by (simp add: round_key_append)
  have "fold (\<lambda>i s. AddRoundKey (MixColumns (ShiftRows (SubBytes s))) (round_key (rk @ ex) i))
          [1..<Nr] st =
        fold (\<lambda>i s. AddRoundKey (MixColumns (ShiftRows (SubBytes s))) (round_key rk i))
          [1..<Nr] st" for st
    by (rule fold_cong) (simp_all add: keys)
  then show ?thesis
    by (simp only: camlpdf_rijndaelEncrypt_def enc_rounds_fold keys [of 0] keys [of Nr] le0 le_refl)
qed

lemma decrypt_prefix:
  assumes "length rk = 4 * (Nr + 1)"
  shows "camlpdf_rijndaelDecrypt (rk @ ex) Nr ct = camlpdf_rijndaelDecrypt rk Nr ct"
proof -
  have keys: "round_key (rk @ ex) r = round_key rk r" if "r \<le> Nr" for r
    using that assms by (simp add: round_key_append)
  have "fold (\<lambda>i s. AddRoundKey (InvMixColumns (InvSubBytes (InvShiftRows s)))
                 (round_key (rk @ ex) i)) [1..<Nr] st =
        fold (\<lambda>i s. AddRoundKey (InvMixColumns (InvSubBytes (InvShiftRows s)))
                 (round_key rk i)) [1..<Nr] st" for st
    by (rule fold_cong) (simp_all add: keys)
  then show ?thesis
    by (simp only: camlpdf_rijndaelDecrypt_def dec_rounds_fold keys [of 0] keys [of Nr] le0 le_refl)
qed

lemma cooked_facts:
  assumes ck: "ck = concat (map store_u32 ws) @ replicate (240 - 4 * length ws) 0 @ [v]"
    and "4 * length ws \<le> 240"
  shows "length ck = 241"
    and "ck ! Cooked_key_NR_offset = v"
    and "\<exists>ex. load_words ck = ws @ ex"
proof -
  show "length ck = 241"
    using assms by simp
  have "length (concat (map store_u32 ws) @ replicate (240 - 4 * length ws) 0) = 240"
    using assms(2) by simp
  then have "((concat (map store_u32 ws) @ replicate (240 - 4 * length ws) 0) @ [v]) ! 240 = v"
    by (metis nth_append_length)
  then show "ck ! Cooked_key_NR_offset = v"
    by (simp add: ck)
  show "\<exists>ex. load_words ck = ws @ ex"
    by (simp add: ck load_words_store)
qed

lemma read_write_block:
  "in_bounds buf ofs \<Longrightarrow> length blk = 16 \<Longrightarrow> read_block (write_block buf ofs blk) ofs = blk"
  by (simp add: in_bounds_def read_block_def write_block_def)

lemma length_write_block:
  "in_bounds buf ofs \<Longrightarrow> length blk = 16 \<Longrightarrow> length (write_block buf ofs blk) = length buf"
  by (simp add: in_bounds_def write_block_def)


lemma length_Encrypt:
  "\<forall>r \<le> Nr. length (round_key rk r) = 16 \<Longrightarrow> length (camlpdf_rijndaelEncrypt rk Nr pt) = 16"
  by (simp add: camlpdf_rijndaelEncrypt_def Let_def)

lemma length_Decrypt:
  "\<forall>r \<le> Nr. length (round_key rk r) = 16 \<Longrightarrow> length (camlpdf_rijndaelDecrypt rk Nr ct) = 16"
  by (simp add: camlpdf_rijndaelDecrypt_def Let_def)

lemma length_load_words: "length (load_words bs) = length bs div 4"
  by (induction bs rule: load_words.induct) simp_all

lemma schedule_round_keys:
  assumes "schedule_in_bounds ck" and "r \<le> unat (ck ! Cooked_key_NR_offset)"
  shows "length (round_key (load_words ck) r) = 16"
proof -
  have "16 * (r + 1) \<le> length ck"
    using assms by (simp add: schedule_in_bounds_def)
  then have "4 * (r + 1) \<le> length (load_words ck)"
    by (simp add: length_load_words)
  then show ?thesis
    by (rule length_round_key)
qed

lemma cooked_schedule:
  assumes ck: "ck = concat (map store_u32 ws) @ replicate (240 - 4 * length ws) 0 @ [word_of_nat Nr]"
    and len: "length ws = 4 * (Nr + 1)" and nr: "Nr \<le> 14"
  shows "schedule_in_bounds ck"
    and "unat (ck ! Cooked_key_NR_offset) = Nr"
    and "camlpdf_rijndaelEncrypt (load_words ck) Nr pt = camlpdf_rijndaelEncrypt ws Nr pt"
    and "camlpdf_rijndaelDecrypt (load_words ck) Nr pt = camlpdf_rijndaelDecrypt ws Nr pt"
proof -
  have small: "4 * length ws \<le> 240"
    using len nr by simp
  note facts = cooked_facts [OF ck small]
  show trailer: "unat (ck ! Cooked_key_NR_offset) = Nr"
    using nr by (simp only: facts(2)) (simp add: unat_of_nat)
  show "schedule_in_bounds ck"
    using nr by (simp add: schedule_in_bounds_def facts(1) trailer [simplified])
  from facts(3) obtain ex where ex: "load_words ck = ws @ ex"
    by blast
  show "camlpdf_rijndaelEncrypt (load_words ck) Nr pt = camlpdf_rijndaelEncrypt ws Nr pt"
    unfolding ex using len by (rule encrypt_prefix)
  show "camlpdf_rijndaelDecrypt (load_words ck) Nr pt = camlpdf_rijndaelDecrypt ws Nr pt"
    unfolding ex using len by (rule decrypt_prefix)
qed

text \<open>
  The calls with the buffer that \<open>camlpdf_caml_aes_cook_encrypt_key\<close> returns for a
  key of 16, 24 or 32 bytes: the routines run on the words and the round count of
  \<open>camlpdf_rijndaelKeySetupEnc\<close>.
\<close>

lemma calls_with_encrypt_key:
  assumes key: "length key = 16 \<or> length key = 24 \<or> length key = 32"
    and rk: "camlpdf_rijndaelKeySetupEnc key (key_bits (length key)) = (rk, Nr)"
    and h: "h ckey = Some (camlpdf_caml_aes_cook_encrypt_key key)" "h src = Some s" "h dst = Some d"
    and bounds: "in_bounds s src_ofs" "in_bounds d dst_ofs"
  shows "camlpdf_caml_aes_encrypt h ckey src src_ofs dst dst_ofs =
           Some (h(dst \<mapsto> write_block d dst_ofs
             (camlpdf_rijndaelEncrypt rk (nat Nr) (read_block s src_ofs))))"
    and "camlpdf_caml_aes_decrypt h ckey src src_ofs dst dst_ofs =
           Some (h(dst \<mapsto> write_block d dst_ofs
             (camlpdf_rijndaelDecrypt rk (nat Nr) (read_block s src_ofs))))"
proof -
  let ?n = "length key div 4 + 6"
  from cook_encrypt_valid [OF key] rk obtain
    Nr: "Nr = int ?n" and len: "length rk = 4 * (?n + 1)"
    and ck: "camlpdf_caml_aes_cook_encrypt_key key =
       concat (map store_u32 rk) @ replicate (240 - 4 * length rk) 0 @ [word_of_nat ?n]"
    by (metis Pair_inject)
  have n: "?n \<le> 14"
    using key by auto
  note facts = cooked_schedule [OF ck len n]
  show "camlpdf_caml_aes_encrypt h ckey src src_ofs dst dst_ofs =
           Some (h(dst \<mapsto> write_block d dst_ofs
             (camlpdf_rijndaelEncrypt rk (nat Nr) (read_block s src_ofs))))"
    unfolding Nr nat_int
    by (simp add: camlpdf_caml_aes_encrypt_def h bounds facts del: Cooked_key_consts)
  show "camlpdf_caml_aes_decrypt h ckey src src_ofs dst dst_ofs =
           Some (h(dst \<mapsto> write_block d dst_ofs
             (camlpdf_rijndaelDecrypt rk (nat Nr) (read_block s src_ofs))))"
    unfolding Nr nat_int
    by (simp add: camlpdf_caml_aes_decrypt_def h bounds facts del: Cooked_key_consts)
qed

lemma calls_with_decrypt_key:
  assumes key: "length key = 16 \<or> length key = 24 \<or> length key = 32"
    and dk: "camlpdf_rijndaelKeySetupDec key (key_bits (length key)) = (dk, Nr)"
    and h: "h ckey = Some (camlpdf_caml_aes_cook_decrypt_key key)" "h src = Some s" "h dst = Some d"
    and bounds: "in_bounds s src_ofs" "in_bounds d dst_ofs"
  shows "camlpdf_caml_aes_encrypt h ckey src src_ofs dst dst_ofs =
           Some (h(dst \<mapsto> write_block d dst_ofs
             (camlpdf_rijndaelEncrypt dk (nat Nr) (read_block s src_ofs))))"
    and "camlpdf_caml_aes_decrypt h ckey src src_ofs dst dst_ofs =
           Some (h(dst \<mapsto> write_block d dst_ofs
             (camlpdf_rijndaelDecrypt dk (nat Nr) (read_block s src_ofs))))"
proof -
  let ?n = "length key div 4 + 6"
  from cook_decrypt_valid [OF key] obtain rk where
    rk: "camlpdf_rijndaelKeySetupEnc key (key_bits (length key)) = (rk, int ?n)"
    and len: "length rk = 4 * (?n + 1)"
    and ck: "camlpdf_caml_aes_cook_decrypt_key key =
       concat (map store_u32 (concat (map (dec_round_key rk ?n) [0..<?n + 1]))) @
       replicate (240 - 4 * length rk) 0 @ [word_of_nat ?n]"
    by blast
  have "(concat (map (dec_round_key rk ?n) [0..<?n + 1]), int ?n) = (dk, Nr)"
    using dk unfolding camlpdf_rijndaelKeySetupDec_def rk Let_def prod.case nat_int .
  then have dk': "dk = concat (map (dec_round_key rk ?n) [0..<?n + 1])" and Nr: "Nr = int ?n"
    by simp_all
  have dlen: "length dk = 4 * (?n + 1)"
    unfolding dk' using len by (rule length_dec_schedule)
  have ck': "camlpdf_caml_aes_cook_decrypt_key key =
       concat (map store_u32 dk) @ replicate (240 - 4 * length dk) 0 @ [word_of_nat ?n]"
    unfolding ck dk' [symmetric] by (simp only: dlen len)
  have n: "?n \<le> 14"
    using key by auto
  note facts = cooked_schedule [OF ck' dlen n]
  show "camlpdf_caml_aes_encrypt h ckey src src_ofs dst dst_ofs =
           Some (h(dst \<mapsto> write_block d dst_ofs
             (camlpdf_rijndaelEncrypt dk (nat Nr) (read_block s src_ofs))))"
    unfolding Nr nat_int
    by (simp add: camlpdf_caml_aes_encrypt_def h bounds facts del: Cooked_key_consts)
  show "camlpdf_caml_aes_decrypt h ckey src src_ofs dst dst_ofs =
           Some (h(dst \<mapsto> write_block d dst_ofs
             (camlpdf_rijndaelDecrypt dk (nat Nr) (read_block s src_ofs))))"
    unfolding Nr nat_int
    by (simp add: camlpdf_caml_aes_decrypt_def h bounds facts del: Cooked_key_consts)
qed


lemma nat_KeySetupEnc_valid:
  assumes "length key = 16 \<or> length key = 24 \<or> length key = 32"
  shows "nat (snd (camlpdf_rijndaelKeySetupEnc key (key_bits (length key)))) = length key div 4 + 6"
  using KeySetupEnc_valid [OF assms] by (auto simp only: snd_conv nat_int)

lemma nat_KeySetupDec_valid:
  assumes "length key = 16 \<or> length key = 24 \<or> length key = 32"
  shows "nat (snd (camlpdf_rijndaelKeySetupDec key (key_bits (length key)))) = length key div 4 + 6"
  using nat_KeySetupEnc_valid [OF assms]
  by (auto simp add: camlpdf_rijndaelKeySetupDec_def split: prod.split)

lemma encrypt_key_calls:
  assumes key: "length key = 16 \<or> length key = 24 \<or> length key = 32"
    and h: "h ckey = Some (camlpdf_caml_aes_cook_encrypt_key key)" "h src = Some s" "h dst = Some d"
    and bounds: "in_bounds s src_ofs" "in_bounds d dst_ofs"
  shows "camlpdf_caml_aes_encrypt h ckey src src_ofs dst dst_ofs =
           Some (h(dst \<mapsto> write_block d dst_ofs
             (camlpdf_rijndaelEncrypt
                (fst (camlpdf_rijndaelKeySetupEnc key (key_bits (length key))))
                (length key div 4 + 6) (read_block s src_ofs))))"
    and "camlpdf_caml_aes_decrypt h ckey src src_ofs dst dst_ofs =
           Some (h(dst \<mapsto> write_block d dst_ofs
             (camlpdf_rijndaelDecrypt
                (fst (camlpdf_rijndaelKeySetupEnc key (key_bits (length key))))
                (length key div 4 + 6) (read_block s src_ofs))))"
  using calls_with_encrypt_key [OF key prod.collapse [symmetric] h bounds]
  unfolding nat_KeySetupEnc_valid [OF key] by blast+

lemma decrypt_key_calls:
  assumes key: "length key = 16 \<or> length key = 24 \<or> length key = 32"
    and h: "h ckey = Some (camlpdf_caml_aes_cook_decrypt_key key)" "h src = Some s" "h dst = Some d"
    and bounds: "in_bounds s src_ofs" "in_bounds d dst_ofs"
  shows "camlpdf_caml_aes_encrypt h ckey src src_ofs dst dst_ofs =
           Some (h(dst \<mapsto> write_block d dst_ofs
             (camlpdf_rijndaelEncrypt
                (fst (camlpdf_rijndaelKeySetupDec key (key_bits (length key))))
                (length key div 4 + 6) (read_block s src_ofs))))"
    and "camlpdf_caml_aes_decrypt h ckey src src_ofs dst dst_ofs =
           Some (h(dst \<mapsto> write_block d dst_ofs
             (camlpdf_rijndaelDecrypt
                (fst (camlpdf_rijndaelKeySetupDec key (key_bits (length key))))
                (length key div 4 + 6) (read_block s src_ofs))))"
  using calls_with_decrypt_key [OF key prod.collapse [symmetric] h bounds]
  unfolding nat_KeySetupDec_valid [OF key] by blast+

subsection \<open>Evaluation on concrete blocks\<close>

lemma replicate_numeral: "replicate (numeral k) x = x # replicate (pred_numeral k) x"
  by (simp add: numeral_eq_Suc)

lemmas schedule_eval =
  camlpdf_rijndaelKeySetupEnc_def expand_key.simps next_word_def Let_def SubWord_def RotWord_def
  word_of_bytes_def bytes_of_word_def sbox_def Sbox_table_def rcon_def replicate_numeral

lemmas encrypt_eval =
  camlpdf_rijndaelEncrypt_def enc_rounds.simps round_key_def bytes_of_words_def AddRoundKey_def
  SubBytes_def ShiftRows_block MixColumn_def mul2_def mul3_def xtime_def

lemmas decrypt_eval =
  camlpdf_rijndaelDecrypt_def dec_rounds.simps round_key_def bytes_of_words_def AddRoundKey_def
  InvSubBytes_def inv_sbox_def InvSbox_table_def InvShiftRows_block InvMixColumn_def
  mul9_def mul11_def mul13_def mul14_def xtime_def

text \<open>
  The all-zero block under the all-zero keys: the ciphertexts are those of the
  published known-answer vectors (the first entries of the variable-text and
  variable-key tables of the AES submission).
\<close>

lemma zero_vector_128:
  "camlpdf_rijndaelEncrypt (fst (camlpdf_rijndaelKeySetupEnc (replicate 16 0) 128)) 10
     (replicate 16 0) =
   [0x66, 0xe9, 0x4b, 0xd4, 0xef, 0x8a, 0x2c, 0x3b, 0x88, 0x4c, 0xfa, 0x59, 0xca, 0x34, 0x2b, 0x2e]"
  by (simp add: schedule_eval encrypt_eval)

lemma zero_vector_192:
  "camlpdf_rijndaelEncrypt (fst (camlpdf_rijndaelKeySetupEnc (replicate 24 0) 192)) 12
     (replicate 16 0) =
   [0xaa, 0xe0, 0x69, 0x92, 0xac, 0xbf, 0x52, 0xa3, 0xe8, 0xf4, 0xa9, 0x6e, 0xc9, 0x30, 0x0b, 0xd7]"
  by (simp add: schedule_eval encrypt_eval)

lemma zero_vector_256:
  "camlpdf_rijndaelEncrypt (fst (camlpdf_rijndaelKeySetupEnc (replicate 32 0) 256)) 14
     (replicate 16 0) =
   [0xdc, 0x95, 0xc0, 0x78, 0xa2, 0x40, 0x89, 0x89, 0xad, 0x48, 0xa2, 0x14, 0x92, 0x84, 0x20, 0x87]"
  by (simp add: schedule_eval encrypt_eval)

text \<open>The decryption routine run on the encryption schedule of the all-zero key.\<close>

lemma decrypt_with_encrypt_schedule:
  "camlpdf_rijndaelDecrypt (fst (camlpdf_rijndaelKeySetupEnc (replicate 16 0) 128)) 10
     (replicate 16 0) =
   [0x10, 0x94, 0xcd, 0x8f, 0xec, 0x5a, 0xef, 0x95, 0xa2, 0xa8, 0xc1, 0x4a, 0x59, 0xdc, 0x68, 0xdc]"
  by (simp add: schedule_eval decrypt_eval)

subsection \<open>The size of the schedule buffer, for any key\<close>

lemma length_concat_le:
  "\<forall>x \<in> set xss. length x \<le> n \<Longrightarrow> length (concat xss) \<le> n * length xss"
  by (induction xss) (simp_all add: add_mono)

lemma length_InvMixColumns_le: "length (InvMixColumns bs) \<le> length bs"
  by (induction bs rule: InvMixColumns.induct) (simp_all add: InvMixColumn_def)

lemma length_dec_round_key_le: "length (dec_round_key rk Nr j) \<le> 4"
proof -
  have "length (bytes_of_words (take 4 (drop (4 * (Nr - j)) rk))) \<le> 16"
    by simp
  then have "length (InvMixColumns (bytes_of_words (take 4 (drop (4 * (Nr - j)) rk)))) \<le> 16"
    using length_InvMixColumns_le le_trans by blast
  then have "length (InvMixColumns (bytes_of_words (take 4 (drop (4 * (Nr - j)) rk)))) div 4 \<le> 4"
    by linarith
  then show ?thesis
    by (simp add: dec_round_key_def Let_def length_words_of_bytes del: length_bytes_of_words)
qed

lemma KeySetupEnc_cases:
  obtains rk where "camlpdf_rijndaelKeySetupEnc key bits = (rk, 10)" "length rk \<le> 44"
  | rk where "camlpdf_rijndaelKeySetupEnc key bits = (rk, 12)" "length rk \<le> 52"
  | rk where "camlpdf_rijndaelKeySetupEnc key bits = (rk, 14)" "length rk \<le> 60"
  | "camlpdf_rijndaelKeySetupEnc key bits = ([], 0)"
  by (cases "bits = 128"; cases "bits = 192"; cases "bits = 256")
    (simp_all add: camlpdf_rijndaelKeySetupEnc_def length_expand_key length_words_of_bytes)

lemma length_store_words:
  "4 * length ws \<le> length buf \<Longrightarrow> length (store_words buf ws) = length buf"
  by (simp add: store_words_def)

lemma length_cook_decrypt [simp]:
  "length (camlpdf_caml_aes_cook_decrypt_key key) = Cooked_key_size"
proof -
  obtain rk Nr where rk: "camlpdf_rijndaelKeySetupEnc key (key_bits (length key)) = (rk, Nr)"
    and Nr: "0 \<le> Nr" "Nr \<le> 14"
    by (rule KeySetupEnc_cases [of key "key_bits (length key)"]) simp_all
  let ?dk = "concat (map (dec_round_key rk (nat Nr)) [0..<nat Nr + 1])"
  have "length ?dk \<le> 4 * length (map (dec_round_key rk (nat Nr)) [0..<nat Nr + 1])"
    by (rule length_concat_le) (simp add: length_dec_round_key_le)
  also have "\<dots> \<le> 60"
    using Nr by simp
  finally have "4 * length ?dk \<le> length (moonbit_make_bytes Cooked_key_size 0)"
    by (simp add: moonbit_make_bytes_def)
  then have "length (store_words (moonbit_make_bytes Cooked_key_size 0) ?dk) = Cooked_key_size"
    by (simp add: length_store_words moonbit_make_bytes_def del: Cooked_key_consts)
  then show ?thesis
    unfolding camlpdf_caml_aes_cook_decrypt_key_def camlpdf_rijndaelKeySetupDec_def rk Let_def
      prod.case
    by (simp del: Cooked_key_consts)
qed

lemma cook_valid_schedules:
  assumes key: "length key = 16 \<or> length key = 24 \<or> length key = 32"
  shows "schedule_in_bounds (camlpdf_caml_aes_cook_encrypt_key key)"
    and "unat (camlpdf_caml_aes_cook_encrypt_key key ! Cooked_key_NR_offset) = length key div 4 + 6"
    and "schedule_in_bounds (camlpdf_caml_aes_cook_decrypt_key key)"
    and "unat (camlpdf_caml_aes_cook_decrypt_key key ! Cooked_key_NR_offset) = length key div 4 + 6"
proof -
  let ?n = "length key div 4 + 6"
  have n: "?n \<le> 14"
    using key by auto
  from cook_encrypt_valid [OF key] obtain rk where
    len: "length rk = 4 * (?n + 1)"
    and ck: "camlpdf_caml_aes_cook_encrypt_key key =
       concat (map store_u32 rk) @ replicate (240 - 4 * length rk) 0 @ [word_of_nat ?n]"
    by blast
  from cooked_schedule(1,2) [OF ck len n]
  show "schedule_in_bounds (camlpdf_caml_aes_cook_encrypt_key key)"
    and "unat (camlpdf_caml_aes_cook_encrypt_key key ! Cooked_key_NR_offset) = ?n"
    by blast+
  from cook_decrypt_valid [OF key] obtain rk' where
    len': "length rk' = 4 * (?n + 1)"
    and ck': "camlpdf_caml_aes_cook_decrypt_key key =
       concat (map store_u32 (concat (map (dec_round_key rk' ?n) [0..<?n + 1]))) @
       replicate (240 - 4 * length rk') 0 @ [word_of_nat ?n]"
    by blast
  let ?dk = "concat (map (dec_round_key rk' ?n) [0..<?n + 1])"
  have dlen: "length ?dk = 4 * (?n + 1)"
    using len' by (rule length_dec_schedule)
  have ck'': "camlpdf_caml_aes_cook_decrypt_key key =
       concat (map store_u32 ?dk) @ replicate (240 - 4 * length ?dk) 0 @ [word_of_nat ?n]"
    unfolding ck' by (simp only: dlen len')
  from cooked_schedule(1,2) [OF ck'' dlen n]
  show "schedule_in_bounds (camlpdf_caml_aes_cook_decrypt_key key)"
    and "unat (camlpdf_caml_aes_cook_decrypt_key key ! Cooked_key_NR_offset) = ?n"
    by blast+
qed

subsection \<open>The calls, with any schedule buffer in bounds\<close>

lemma encrypt_call:
  assumes "h ckey = Some ck" and "h src = Some s" and "h dst = Some d"
    and "schedule_in_bounds ck" and "in_bounds s src_ofs" and "in_bounds d dst_ofs"
  shows "camlpdf_caml_aes_encrypt h ckey src src_ofs dst dst_ofs =
           Some (h(dst \<mapsto> write_block d dst_ofs
             (camlpdf_rijndaelEncrypt (load_words ck) (unat (ck ! Cooked_key_NR_offset))
                (read_block s src_ofs))))"
  using assms by (simp add: camlpdf_caml_aes_encrypt_def del: Cooked_key_consts)

lemma decrypt_call:
  assumes "h ckey = Some ck" and "h src = Some s" and "h dst = Some d"
    and "schedule_in_bounds ck" and "in_bounds s src_ofs" and "in_bounds d dst_ofs"
  shows "camlpdf_caml_aes_decrypt h ckey src src_ofs dst dst_ofs =
           Some (h(dst \<mapsto> write_block d dst_ofs
             (camlpdf_rijndaelDecrypt (load_words ck) (unat (ck ! Cooked_key_NR_offset))
                (read_block s src_ofs))))"
  using assms by (simp add: camlpdf_caml_aes_decrypt_def del: Cooked_key_consts)

lemma encrypt_call_Some:
  assumes "camlpdf_caml_aes_encrypt h ckey src src_ofs dst dst_ofs = Some h'"
  obtains ck s d where "h ckey = Some ck" "h src = Some s" "h dst = Some d"
    "schedule_in_bounds ck" "in_bounds s src_ofs" "in_bounds d dst_ofs"
  using assms
  by (auto simp add: camlpdf_caml_aes_encrypt_def split: option.splits if_splits)

lemma decrypt_call_Some:
  assumes "camlpdf_caml_aes_decrypt h ckey src src_ofs dst dst_ofs = Some h'"
  obtains ck s d where "h ckey = Some ck" "h src = Some s" "h dst = Some d"
    "schedule_in_bounds ck" "in_bounds s src_ofs" "in_bounds d dst_ofs"
  using assms
  by (auto simp add: camlpdf_caml_aes_decrypt_def split: option.splits if_splits)

lemma length_Encrypt_schedule:
  "schedule_in_bounds ck \<Longrightarrow>
   length (camlpdf_rijndaelEncrypt (load_words ck) (unat (ck ! Cooked_key_NR_offset)) pt) = 16"
  by (rule length_Encrypt) (simp add: schedule_round_keys del: Cooked_key_consts)

lemma length_Decrypt_schedule:
  "schedule_in_bounds ck \<Longrightarrow>
   length (camlpdf_rijndaelDecrypt (load_words ck) (unat (ck ! Cooked_key_NR_offset)) ct) = 16"
  by (rule length_Decrypt) (simp add: schedule_round_keys del: Cooked_key_consts)

lemma write_block_frame:
  assumes "in_bounds buf ofs" and "length blk = 16"
    and "i < nat ofs \<or> nat ofs + 16 \<le> i"
  shows "write_block buf ofs blk ! i = buf ! i"
proof -
  from assms(3) show ?thesis
  proof
    assume "i < nat ofs"
    then show ?thesis
      using assms(1) by (simp add: write_block_def in_bounds_def nth_append)
  next
    assume far: "nat ofs + 16 \<le> i"
    then have "write_block buf ofs blk ! i = drop (nat ofs + 16) buf ! (i - (nat ofs + 16))"
      using assms(1,2) by (auto simp add: write_block_def in_bounds_def nth_append)
    also have "\<dots> = buf ! i"
      using far assms(1) by (simp add: in_bounds_def)
    finally show ?thesis .
  qed
qed

lemma zero_schedule_in_bounds: "schedule_in_bounds (replicate 240 0 @ [10])"
  by (simp add: schedule_in_bounds_def nth_append)

subsection \<open>What the derivation functions return, for any key\<close>

lemma length_KeySetupEnc_le:
  "length (fst (camlpdf_rijndaelKeySetupEnc key bits)) \<le> 60"
  by (rule KeySetupEnc_cases [of key bits]) simp_all

lemma length_KeySetupDec_le:
  "length (fst (camlpdf_rijndaelKeySetupDec key bits)) \<le> 60"
proof -
  obtain rk Nr where rk: "camlpdf_rijndaelKeySetupEnc key bits = (rk, Nr)"
    and Nr: "0 \<le> Nr" "Nr \<le> 14"
    by (rule KeySetupEnc_cases [of key bits]) simp_all
  have "length (concat (map (dec_round_key rk (nat Nr)) [0..<nat Nr + 1])) \<le>
      4 * length (map (dec_round_key rk (nat Nr)) [0..<nat Nr + 1])"
    by (rule length_concat_le) (simp add: length_dec_round_key_le)
  also have "\<dots> \<le> 60"
    using Nr by simp
  finally show ?thesis
    unfolding camlpdf_rijndaelKeySetupDec_def rk Let_def prod.case fst_conv .
qed

lemma cook_encrypt_any:
  "camlpdf_caml_aes_cook_encrypt_key key =
     concat (map store_u32 (fst (camlpdf_rijndaelKeySetupEnc key (key_bits (length key))))) @
     replicate (240 - 4 * length (fst (camlpdf_rijndaelKeySetupEnc key (key_bits (length key))))) 0 @
     [word_of_int (snd (camlpdf_rijndaelKeySetupEnc key (key_bits (length key))))]"
proof -
  obtain ws nr where r: "camlpdf_rijndaelKeySetupEnc key (key_bits (length key)) = (ws, nr)"
    by (cases "camlpdf_rijndaelKeySetupEnc key (key_bits (length key))")
  have "4 * length ws \<le> 240"
    using length_KeySetupEnc_le [of key "key_bits (length key)"] by (simp add: r)
  then show ?thesis
    unfolding camlpdf_caml_aes_cook_encrypt_key_def Let_def r prod.case fst_conv snd_conv
    by (rule cooked_layout)
qed

lemma cook_decrypt_any:
  "camlpdf_caml_aes_cook_decrypt_key key =
     concat (map store_u32 (fst (camlpdf_rijndaelKeySetupDec key (key_bits (length key))))) @
     replicate (240 - 4 * length (fst (camlpdf_rijndaelKeySetupDec key (key_bits (length key))))) 0 @
     [word_of_int (snd (camlpdf_rijndaelKeySetupDec key (key_bits (length key))))]"
proof -
  obtain ws nr where r: "camlpdf_rijndaelKeySetupDec key (key_bits (length key)) = (ws, nr)"
    by (cases "camlpdf_rijndaelKeySetupDec key (key_bits (length key))")
  have "4 * length ws \<le> 240"
    using length_KeySetupDec_le [of key "key_bits (length key)"] by (simp add: r)
  then show ?thesis
    unfolding camlpdf_caml_aes_cook_decrypt_key_def Let_def r prod.case fst_conv snd_conv
    by (rule cooked_layout)
qed


lemma cook_key_with_routines:
  "camlpdf_caml_aes_cook_encrypt_key key = cook_key_with camlpdf_rijndaelKeySetupEnc key"
  "camlpdf_caml_aes_cook_decrypt_key key = cook_key_with camlpdf_rijndaelKeySetupDec key"
  unfolding camlpdf_caml_aes_cook_encrypt_key_def camlpdf_caml_aes_cook_decrypt_key_def
    cook_key_with_def by (rule refl)+

lemma cook_key_with_layout:
  assumes "4 * length (fst (KeySetup key (key_bits (length key)))) \<le> 240"
  shows "cook_key_with KeySetup key =
     concat (map store_u32 (fst (KeySetup key (key_bits (length key))))) @
     replicate (240 - 4 * length (fst (KeySetup key (key_bits (length key))))) 0 @
     [word_of_int (snd (KeySetup key (key_bits (length key))))]"
proof -
  obtain ws nr where r: "KeySetup key (key_bits (length key)) = (ws, nr)"
    by (cases "KeySetup key (key_bits (length key))")
  from assms have "4 * length ws \<le> 240"
    by (simp add: r)
  then show ?thesis
    unfolding cook_key_with_def Let_def r prod.case fst_conv snd_conv
    by (rule cooked_layout)
qed

lemma length_cook_key_with:
  assumes "4 * length (fst (KeySetup key (key_bits (length key)))) \<le> 240"
  shows "length (cook_key_with KeySetup key) = 241"
  unfolding cook_key_with_layout [of KeySetup key, OF assms] using assms by simp

lemma take_expand_key: "take (length w) (expand_key Nk n i w) = w"
proof (induction Nk n i w rule: expand_key.induct)
  case (1 Nk n i w)
  show ?case
  proof (cases "i < n")
    case True
    from "1" [OF True]
    have "take (length w) (take (length (w @ [next_word Nk i w]))
        (expand_key Nk n (i + 1) (w @ [next_word Nk i w]))) = take (length w) (w @ [next_word Nk i w])"
      by (rule arg_cong)
    then have "take (length w) (expand_key Nk n (i + 1) (w @ [next_word Nk i w])) = w"
      by (simp add: min_def)
    with True show ?thesis
      by (subst expand_key.simps) simp
  next
    case False
    then show ?thesis
      by (subst expand_key.simps) simp
  qed
qed

lemma KeySetupEnc_key_words:
  assumes "length key = 16 \<or> length key = 24 \<or> length key = 32"
  shows "take (length key div 4) (fst (camlpdf_rijndaelKeySetupEnc key (key_bits (length key)))) =
    words_of_bytes key"
proof -
  have "take (length (words_of_bytes key))
      (expand_key Nk n i (words_of_bytes key)) = words_of_bytes key" for Nk n i
    by (rule take_expand_key)
  then show ?thesis
    using assms
    by (auto simp add: camlpdf_rijndaelKeySetupEnc_def length_words_of_bytes)
qed

lemma cooked_prefix:
  assumes ck: "ck = concat (map store_u32 ws) @ replicate (240 - 4 * length ws) 0 @ [t]"
    and small: "4 * length ws \<le> 240"
  shows "take (4 * length ws) ck = concat (map store_u32 ws)"
    and "drop (4 * length ws) (take 240 ck) = replicate (240 - 4 * length ws) 0"
    and "take (length ws) (load_words ck) = ws"
proof -
  have len: "length (concat (map store_u32 ws)) = 4 * length ws"
    by (rule length_concat_store)
  show "take (4 * length ws) ck = concat (map store_u32 ws)"
    unfolding ck using len by simp
  show "drop (4 * length ws) (take 240 ck) = replicate (240 - 4 * length ws) 0"
    unfolding ck using len small by simp
  show "take (length ws) (load_words ck) = ws"
    unfolding ck load_words_store by simp
qed

subsection \<open>The round steps, byte by byte\<close>





lemma bytes_of_words_nth:
  "c < length ws \<Longrightarrow> j < 4 \<Longrightarrow> bytes_of_words ws ! (4 * c + j) = bytes_of_word (ws ! c) ! j"
proof (induction ws arbitrary: c)
  case Nil
  then show ?case by simp
next
  case (Cons w ws)
  have len: "length (bytes_of_word w) = 4"
    by (simp add: bytes_of_word_def)
  show ?case
  proof (cases c)
    case 0
    with Cons.prems len show ?thesis
      by (simp add: bytes_of_words_Cons nth_append)
  next
    case (Suc c')
    with Cons.prems Cons.IH [of c'] len show ?thesis
      by (simp add: bytes_of_words_Cons nth_append)
  qed
qed

lemma round_key_nth:
  assumes "4 * (r + 1) \<le> length rk" and "c < 4" and "j < 4"
  shows "round_key rk r ! (4 * c + j) = bytes_of_word (rk ! (4 * r + c)) ! j"
proof -
  have "c < length (take 4 (drop (4 * r) rk))"
    using assms by simp
  from bytes_of_words_nth [OF this assms(3)] show ?thesis
    unfolding round_key_def using assms by simp
qed

subsection \<open>A call repeated\<close>






text \<open>
  The round order as section 4.4 lists it, with the decryption schedule of section
  4.2, on the ciphertext of the all-zero block under the all-zero key of 16 bytes:
  the result is not the plaintext.
\<close>

lemma listed_round_order_not_inverse:
  "listed_decrypt (fst (camlpdf_rijndaelKeySetupDec (replicate 16 0) 128)) 10
     (camlpdf_rijndaelEncrypt (fst (camlpdf_rijndaelKeySetupEnc (replicate 16 0) 128)) 10
        (replicate 16 0)) =
   [0x77, 0xb2, 0x21, 0xfb, 0x08, 0x6f, 0x18, 0x29, 0xdd, 0x6c, 0xd0, 0x73, 0xe6, 0xb7, 0xf2, 0x69]"
  unfolding zero_vector_128
  by (simp add: schedule_eval decrypt_eval camlpdf_rijndaelKeySetupDec_def dec_round_key_def
      upt_rec listed_decrypt_def listed_dec_rounds.simps)

section \<open>The claims\<close>



text \<open>
  C2. Encrypting the all-zero block with the schedule derived from the all-zero key of
  16 bytes gives the published ciphertext 66e94bd4ef8a2c3b884cfa59ca342b2e; the
  all-zero keys of 24 and 32 bytes give the published aae06992acbf52a3e8f4a96ec9300bd7
  and dc95c078a2408989ad48a21492842087. The store holds the schedule as object 0, the
  plaintext as object 1 and the output buffer as object 2.
\<close>

theorem known_answer_vectors:
  "camlpdf_caml_aes_encrypt
     [0 \<mapsto> camlpdf_caml_aes_cook_encrypt_key (replicate 16 0),
      1 \<mapsto> replicate 16 0, 2 \<mapsto> replicate 16 0] 0 1 0 2 0 =
   Some [0 \<mapsto> camlpdf_caml_aes_cook_encrypt_key (replicate 16 0),
         1 \<mapsto> replicate 16 0,
         2 \<mapsto> [0x66, 0xe9, 0x4b, 0xd4, 0xef, 0x8a, 0x2c, 0x3b,
              0x88, 0x4c, 0xfa, 0x59, 0xca, 0x34, 0x2b, 0x2e]] \<and>
   camlpdf_caml_aes_encrypt
     [0 \<mapsto> camlpdf_caml_aes_cook_encrypt_key (replicate 24 0),
      1 \<mapsto> replicate 16 0, 2 \<mapsto> replicate 16 0] 0 1 0 2 0 =
   Some [0 \<mapsto> camlpdf_caml_aes_cook_encrypt_key (replicate 24 0),
         1 \<mapsto> replicate 16 0,
         2 \<mapsto> [0xaa, 0xe0, 0x69, 0x92, 0xac, 0xbf, 0x52, 0xa3,
              0xe8, 0xf4, 0xa9, 0x6e, 0xc9, 0x30, 0x0b, 0xd7]] \<and>
   camlpdf_caml_aes_encrypt
     [0 \<mapsto> camlpdf_caml_aes_cook_encrypt_key (replicate 32 0),
      1 \<mapsto> replicate 16 0, 2 \<mapsto> replicate 16 0] 0 1 0 2 0 =
   Some [0 \<mapsto> camlpdf_caml_aes_cook_encrypt_key (replicate 32 0),
         1 \<mapsto> replicate 16 0,
         2 \<mapsto> [0xdc, 0x95, 0xc0, 0x78, 0xa2, 0x40, 0x89, 0x89,
              0xad, 0x48, 0xa2, 0x14, 0x92, 0x84, 0x20, 0x87]]"
proof -
  let ?z = "replicate 16 0 :: u8 list"
  have call: "camlpdf_caml_aes_encrypt
        [0 \<mapsto> camlpdf_caml_aes_cook_encrypt_key key, 1 \<mapsto> ?z, 2 \<mapsto> ?z] 0 1 0 2 0 =
      Some [0 \<mapsto> camlpdf_caml_aes_cook_encrypt_key key, 1 \<mapsto> ?z,
            2 \<mapsto> camlpdf_rijndaelEncrypt
                  (fst (camlpdf_rijndaelKeySetupEnc key (key_bits (length key))))
                  (length key div 4 + 6) ?z]"
    if "length key = 16 \<or> length key = 24 \<or> length key = 32" for key
  proof -
    let ?h = "[0 \<mapsto> camlpdf_caml_aes_cook_encrypt_key key, 1 \<mapsto> ?z, 2 \<mapsto> ?z]"
    have "camlpdf_caml_aes_encrypt ?h 0 1 0 2 0 =
        Some (?h(2 \<mapsto> write_block ?z 0
          (camlpdf_rijndaelEncrypt
             (fst (camlpdf_rijndaelKeySetupEnc key (key_bits (length key))))
             (length key div 4 + 6) (read_block ?z 0))))"
      using that by (rule encrypt_key_calls) (simp_all add: in_bounds_def)
    moreover have "length (camlpdf_rijndaelEncrypt
             (fst (camlpdf_rijndaelKeySetupEnc key (key_bits (length key))))
             (length key div 4 + 6) ?z) = 16"
      using KeySetupEnc_valid [OF that] by (auto intro!: length_Encrypt length_round_key)
    ultimately show ?thesis
      by (simp add: read_block_def write_block_def)
  qed
  show ?thesis
    using call [of "replicate 16 0"] call [of "replicate 24 0"] call [of "replicate 32 0"]
    by (simp add: zero_vector_128 zero_vector_192 zero_vector_256)
qed

text \<open>
  C3 (as amended). Schedule derivation has no key-length check and no error path.
  \<open>camlpdf_caml_aes_cook_encrypt_key\<close> and \<open>camlpdf_caml_aes_cook_decrypt_key\<close> hand
  the key and \<open>8 * key_len\<close> to their key setup routine and do not look at the key
  themselves: whatever words the routine writes, inside the buffer, and whatever int
  it returns, they return the buffer of \<open>Cooked_key_size\<close> bytes that holds those
  words, zero bytes up to \<open>Cooked_key_NR_offset\<close>, and the low byte of the returned
  int there. For a key of 16, 24 or 32 bytes that buffer is a schedule that the
  encryption and decryption calls read within bounds.
\<close>

theorem derivation_has_no_key_check:
  "camlpdf_caml_aes_cook_encrypt_key key = cook_key_with camlpdf_rijndaelKeySetupEnc key \<and>
   camlpdf_caml_aes_cook_decrypt_key key = cook_key_with camlpdf_rijndaelKeySetupDec key \<and>
   (\<forall>KeySetup.
      4 * length (fst (KeySetup key (key_bits (length key)))) \<le> Cooked_key_NR_offset \<longrightarrow>
      cook_key_with KeySetup key =
        concat (map store_u32 (fst (KeySetup key (key_bits (length key))))) @
        replicate (Cooked_key_NR_offset -
           4 * length (fst (KeySetup key (key_bits (length key))))) 0 @
        [word_of_int (snd (KeySetup key (key_bits (length key))))] \<and>
      length (cook_key_with KeySetup key) = Cooked_key_size) \<and>
   (length key = 16 \<or> length key = 24 \<or> length key = 32 \<longrightarrow>
      schedule_in_bounds (camlpdf_caml_aes_cook_encrypt_key key) \<and>
      schedule_in_bounds (camlpdf_caml_aes_cook_decrypt_key key))"
proof (intro conjI allI impI)
  show "camlpdf_caml_aes_cook_encrypt_key key = cook_key_with camlpdf_rijndaelKeySetupEnc key"
    by (rule cook_key_with_routines)
  show "camlpdf_caml_aes_cook_decrypt_key key = cook_key_with camlpdf_rijndaelKeySetupDec key"
    by (rule cook_key_with_routines)
next
  fix KeySetup :: "u8 list \<Rightarrow> int \<Rightarrow> u32 list \<times> int"
  assume "4 * length (fst (KeySetup key (key_bits (length key)))) \<le> Cooked_key_NR_offset"
  then have inside: "4 * length (fst (KeySetup key (key_bits (length key)))) \<le> 240"
    by simp
  show "cook_key_with KeySetup key =
        concat (map store_u32 (fst (KeySetup key (key_bits (length key))))) @
        replicate (Cooked_key_NR_offset -
           4 * length (fst (KeySetup key (key_bits (length key))))) 0 @
        [word_of_int (snd (KeySetup key (key_bits (length key))))]"
    unfolding Cooked_key_consts using inside by (rule cook_key_with_layout)
  show "length (cook_key_with KeySetup key) = Cooked_key_size"
    unfolding Cooked_key_consts using inside by (rule length_cook_key_with)
next
  assume key: "length key = 16 \<or> length key = 24 \<or> length key = 32"
  then show "schedule_in_bounds (camlpdf_caml_aes_cook_encrypt_key key)"
    by (rule cook_valid_schedules(1))
  from key show "schedule_in_bounds (camlpdf_caml_aes_cook_decrypt_key key)"
    by (rule cook_valid_schedules(3))
qed

theorem derivation_has_no_key_check_witness:
  "length (replicate 24 0 :: u8 list) = 24 \<and>
   4 * length (fst (camlpdf_rijndaelKeySetupEnc (replicate 24 0) 192)) \<le> Cooked_key_NR_offset \<and>
   camlpdf_caml_aes_cook_encrypt_key (replicate 24 0) =
     concat (map store_u32 (fst (camlpdf_rijndaelKeySetupEnc (replicate 24 0) 192))) @
     replicate (Cooked_key_NR_offset -
        4 * length (fst (camlpdf_rijndaelKeySetupEnc (replicate 24 0) 192))) 0 @
     [word_of_int (snd (camlpdf_rijndaelKeySetupEnc (replicate 24 0) 192))] \<and>
   length (camlpdf_caml_aes_cook_encrypt_key (replicate 24 0)) = Cooked_key_size \<and>
   schedule_in_bounds (camlpdf_caml_aes_cook_encrypt_key (replicate 24 0)) \<and>
   schedule_in_bounds (camlpdf_caml_aes_cook_decrypt_key (replicate 24 0))"
proof -
  let ?key = "replicate 24 0 :: u8 list"
  have bits: "key_bits (length ?key) = 192"
    by simp
  note inst = derivation_has_no_key_check [of ?key, unfolded bits]
  have valid: "length ?key = 16 \<or> length ?key = 24 \<or> length ?key = 32"
    by simp
  have len: "length ?key = 24"
    by simp
  have inside: "4 * length (fst (camlpdf_rijndaelKeySetupEnc ?key 192)) \<le> Cooked_key_NR_offset"
    using length_KeySetupEnc_le [of ?key 192] by simp
  note enc = inst [THEN conjunct1]
  note every = inst [THEN conjunct2, THEN conjunct2, THEN conjunct1]
  note layout = spec [OF every, where x = camlpdf_rijndaelKeySetupEnc, THEN mp, OF inside,
      folded enc]
  note bounds = inst [THEN conjunct2, THEN conjunct2, THEN conjunct2, THEN mp, OF valid]
  from len inside layout bounds show ?thesis
    by - (elim conjE, intro conjI, assumption+)
qed

text \<open>
  C3 as stated fails at a key of 33 bytes: the key is not rejected, both derivations
  return a schedule buffer for it.
\<close>

theorem long_key_is_not_rejected:
  "length (camlpdf_caml_aes_cook_encrypt_key (replicate 33 0)) = Cooked_key_size \<and>
   length (camlpdf_caml_aes_cook_decrypt_key (replicate 33 0)) = Cooked_key_size"
  using length_cook_encrypt [of "replicate 33 0"] length_cook_decrypt [of "replicate 33 0"]
  by (intro conjI)

text \<open>
  C4. For a key of 16, 24 or 32 bytes the round count stored in the schedule buffer,
  the byte at \<open>Cooked_key_NR_offset\<close>, is 10, 12 or 14, in both directions, and the
  buffer holds exactly \<open>Nr + 1\<close> round keys: its first \<open>16 * (Nr + 1)\<close> bytes are the
  \<open>4 * (Nr + 1)\<close> words the key setup produced, stored as 32-bit words, every byte
  between them and the round count is still the zero the buffer was made with, and
  the first round key of the encryption schedule is the key itself.
\<close>

theorem round_count_by_key_length:
  assumes key: "length key = 16 \<or> length key = 24 \<or> length key = 32"
    and Nr: "Nr = (if length key = 16 then 10 else if length key = 24 then 12 else 14)"
  shows "unat (camlpdf_caml_aes_cook_encrypt_key key ! Cooked_key_NR_offset) = Nr \<and>
         unat (camlpdf_caml_aes_cook_decrypt_key key ! Cooked_key_NR_offset) = Nr \<and>
         length (fst (camlpdf_rijndaelKeySetupEnc key (key_bits (length key)))) = 4 * (Nr + 1) \<and>
         length (fst (camlpdf_rijndaelKeySetupDec key (key_bits (length key)))) = 4 * (Nr + 1) \<and>
         take (16 * (Nr + 1)) (camlpdf_caml_aes_cook_encrypt_key key) =
           concat (map store_u32 (fst (camlpdf_rijndaelKeySetupEnc key (key_bits (length key))))) \<and>
         take (16 * (Nr + 1)) (camlpdf_caml_aes_cook_decrypt_key key) =
           concat (map store_u32 (fst (camlpdf_rijndaelKeySetupDec key (key_bits (length key))))) \<and>
         drop (16 * (Nr + 1)) (take Cooked_key_NR_offset (camlpdf_caml_aes_cook_encrypt_key key)) =
           replicate (Cooked_key_NR_offset - 16 * (Nr + 1)) 0 \<and>
         drop (16 * (Nr + 1)) (take Cooked_key_NR_offset (camlpdf_caml_aes_cook_decrypt_key key)) =
           replicate (Cooked_key_NR_offset - 16 * (Nr + 1)) 0 \<and>
         take (length key div 4) (load_words (camlpdf_caml_aes_cook_encrypt_key key)) =
           words_of_bytes key"
proof -
  let ?E = "fst (camlpdf_rijndaelKeySetupEnc key (key_bits (length key)))"
  let ?D = "fst (camlpdf_rijndaelKeySetupDec key (key_bits (length key)))"
  have n: "length key div 4 + 6 = Nr"
    using key Nr by auto
  from KeySetupEnc_valid [OF key] obtain rk where
    rk: "camlpdf_rijndaelKeySetupEnc key (key_bits (length key)) = (rk, int Nr)"
    and len: "length rk = 4 * (Nr + 1)"
    unfolding n by blast
  have lenE: "length ?E = 4 * (Nr + 1)"
    unfolding rk fst_conv by (rule len)
  have "?D = concat (map (dec_round_key rk Nr) [0..<Nr + 1])"
    unfolding camlpdf_rijndaelKeySetupDec_def rk Let_def prod.case nat_int fst_conv ..
  then have lenD: "length ?D = 4 * (Nr + 1)"
    using length_dec_schedule [OF len] by simp
  have small: "4 * length ?E \<le> 240" "4 * length ?D \<le> 240"
    unfolding lenE lenD using key Nr by auto
  have sixteen: "16 * (Nr + 1) = 4 * length ?E" "16 * (Nr + 1) = 4 * length ?D"
    unfolding lenE lenD by simp_all
  note E = cooked_prefix [OF cook_encrypt_any small(1)]
  note D = cooked_prefix [OF cook_decrypt_any small(2)]
  have "take (length key div 4) (take (length ?E) (load_words (camlpdf_caml_aes_cook_encrypt_key key))) =
      words_of_bytes key"
    unfolding E(3) using key by (rule KeySetupEnc_key_words)
  moreover have "length key div 4 \<le> length ?E"
    unfolding lenE using key Nr by auto
  ultimately have first: "take (length key div 4)
      (load_words (camlpdf_caml_aes_cook_encrypt_key key)) = words_of_bytes key"
    by (simp add: min_def)
  from cook_valid_schedules(2,4) [OF key]
  have nr: "unat (camlpdf_caml_aes_cook_encrypt_key key ! Cooked_key_NR_offset) = Nr"
    "unat (camlpdf_caml_aes_cook_decrypt_key key ! Cooked_key_NR_offset) = Nr"
    unfolding n by blast+
  from nr lenE lenD E(1,2) D(1,2) first show ?thesis
    unfolding sixteen(1) [symmetric] sixteen(2) [symmetric] Cooked_key_consts
    by (intro conjI) assumption+
qed

theorem round_count_by_key_length_witness:
  "length (replicate 32 0 :: u8 list) = 32 \<and>
   unat (camlpdf_caml_aes_cook_encrypt_key (replicate 32 0) ! Cooked_key_NR_offset) = 14 \<and>
   unat (camlpdf_caml_aes_cook_decrypt_key (replicate 32 0) ! Cooked_key_NR_offset) = 14 \<and>
   length (fst (camlpdf_rijndaelKeySetupEnc (replicate 32 0) 256)) = 60 \<and>
   length (fst (camlpdf_rijndaelKeySetupDec (replicate 32 0) 256)) = 60 \<and>
   take 240 (camlpdf_caml_aes_cook_encrypt_key (replicate 32 0)) =
     concat (map store_u32 (fst (camlpdf_rijndaelKeySetupEnc (replicate 32 0) 256))) \<and>
   take 240 (camlpdf_caml_aes_cook_decrypt_key (replicate 32 0)) =
     concat (map store_u32 (fst (camlpdf_rijndaelKeySetupDec (replicate 32 0) 256))) \<and>
   take 8 (load_words (camlpdf_caml_aes_cook_encrypt_key (replicate 32 0))) =
     words_of_bytes (replicate 32 0)"
proof -
  have key: "length (replicate 32 0 :: u8 list) = 16 \<or> length (replicate 32 0 :: u8 list) = 24 \<or>
      length (replicate 32 0 :: u8 list) = 32"
    by simp
  have Nr: "(14 :: nat) = (if length (replicate 32 0 :: u8 list) = 16 then 10
      else if length (replicate 32 0 :: u8 list) = 24 then 12 else 14)"
    by simp
  have bits: "key_bits (length (replicate 32 0 :: u8 list)) = 256"
    by simp
  have n: "16 * (14 + 1) = (240 :: nat)" "4 * (14 + 1) = (60 :: nat)"
      "length (replicate 32 0 :: u8 list) div 4 = 8"
    by simp_all
  note inst = round_count_by_key_length [OF key Nr, unfolded bits n]
  have len: "length (replicate 32 0 :: u8 list) = 32"
    by simp
  from len inst show ?thesis
    by - (elim conjE, intro conjI, assumption+)
qed



text \<open>
  C6 (as amended). The schedule buffer of a key of 16, 24 or 32 bytes has
  \<open>Cooked_key_size\<close> bytes whatever the round count: the \<open>Nr + 1\<close> round keys of 16
  bytes, densely packed from offset 0, then \<open>16 * (MAXNR - Nr)\<close> zero bytes, then the
  byte holding \<open>Nr\<close> at the fixed offset \<open>Cooked_key_NR_offset\<close>. The byte follows the
  round keys immediately only for a key of 32 bytes.
\<close>

theorem schedule_buffer_layout:
  assumes "length key = 16 \<or> length key = 24 \<or> length key = 32"
  shows "camlpdf_caml_aes_cook_encrypt_key key =
           concat (map store_u32 (fst (camlpdf_rijndaelKeySetupEnc key (key_bits (length key))))) @
           replicate (16 * (MAXNR - (length key div 4 + 6))) 0 @
           [word_of_nat (length key div 4 + 6)] \<and>
         camlpdf_caml_aes_cook_decrypt_key key =
           concat (map store_u32 (fst (camlpdf_rijndaelKeySetupDec key (key_bits (length key))))) @
           replicate (16 * (MAXNR - (length key div 4 + 6))) 0 @
           [word_of_nat (length key div 4 + 6)] \<and>
         length (concat (map store_u32
           (fst (camlpdf_rijndaelKeySetupEnc key (key_bits (length key)))))) =
           16 * (length key div 4 + 6 + 1) \<and>
         length (concat (map store_u32
           (fst (camlpdf_rijndaelKeySetupDec key (key_bits (length key)))))) =
           16 * (length key div 4 + 6 + 1) \<and>
         length (camlpdf_caml_aes_cook_encrypt_key key) = Cooked_key_size \<and>
         length (camlpdf_caml_aes_cook_decrypt_key key) = Cooked_key_size"
proof -
  let ?n = "length key div 4 + 6"
  from cook_decrypt_valid [OF assms] obtain rk where
    rk: "camlpdf_rijndaelKeySetupEnc key (key_bits (length key)) = (rk, int ?n)"
    and len: "length rk = 4 * (?n + 1)"
    and dck: "camlpdf_caml_aes_cook_decrypt_key key =
       concat (map store_u32 (concat (map (dec_round_key rk ?n) [0..<?n + 1]))) @
       replicate (240 - 4 * length rk) 0 @ [word_of_nat ?n]"
    by blast
  from cook_encrypt_valid [OF assms] rk have eck: "camlpdf_caml_aes_cook_encrypt_key key =
       concat (map store_u32 rk) @ replicate (240 - 4 * length rk) 0 @ [word_of_nat ?n]"
    by (metis Pair_inject)
  define dk where "dk = concat (map (dec_round_key rk ?n) [0..<?n + 1])"
  have dk: "fst (camlpdf_rijndaelKeySetupDec key (key_bits (length key))) = dk"
    unfolding camlpdf_rijndaelKeySetupDec_def rk Let_def prod.case nat_int fst_conv dk_def ..
  have dlen: "length dk = 4 * (?n + 1)"
    unfolding dk_def using len by (rule length_dec_schedule)
  have pad: "240 - 4 * length rk = 16 * (MAXNR - ?n)"
    using assms len by auto
  have "length (concat (map store_u32 rk)) = 16 * (?n + 1)"
    and "length (concat (map store_u32 dk)) = 16 * (?n + 1)"
    using len dlen by simp_all
  then show ?thesis
    unfolding dk rk fst_conv eck dck [folded dk_def] pad
    using assms by auto
qed

theorem schedule_buffer_layout_witness:
  "length (replicate 16 0 :: u8 list) = 16 \<and>
   camlpdf_caml_aes_cook_encrypt_key (replicate 16 0) =
     concat (map store_u32 (fst (camlpdf_rijndaelKeySetupEnc (replicate 16 0) 128))) @
     replicate 64 0 @ [10] \<and>
   camlpdf_caml_aes_cook_decrypt_key (replicate 16 0) =
     concat (map store_u32 (fst (camlpdf_rijndaelKeySetupDec (replicate 16 0) 128))) @
     replicate 64 0 @ [10] \<and>
   length (concat (map store_u32 (fst (camlpdf_rijndaelKeySetupEnc (replicate 16 0) 128)))) = 176 \<and>
   length (concat (map store_u32 (fst (camlpdf_rijndaelKeySetupDec (replicate 16 0) 128)))) = 176"
  using schedule_buffer_layout [of "replicate 16 0"] by simp

text \<open>
  C6 as stated fails at a key of 16 bytes: the round count is 10, the buffer is
  longer than eleven round keys and one byte, and the byte behind the eleventh round
  key is padding.
\<close>

theorem round_count_not_behind_round_keys:
  "unat (camlpdf_caml_aes_cook_encrypt_key (replicate 16 0) ! Cooked_key_NR_offset) = 10 \<and>
   length (camlpdf_caml_aes_cook_encrypt_key (replicate 16 0)) \<noteq> 16 * (10 + 1) + 1 \<and>
   camlpdf_caml_aes_cook_encrypt_key (replicate 16 0) ! (16 * (10 + 1)) = 0"
proof -
  let ?key = "replicate 16 0 :: u8 list"
  have key: "length ?key = 16 \<or> length ?key = 24 \<or> length ?key = 32"
    by simp
  from cook_encrypt_valid [OF key] obtain rk where
    len: "length rk = 4 * (length ?key div 4 + 6 + 1)"
    and ck: "camlpdf_caml_aes_cook_encrypt_key ?key =
       concat (map store_u32 rk) @ replicate (240 - 4 * length rk) 0 @
       [word_of_nat (length ?key div 4 + 6)]"
    by blast
  have "length (concat (map store_u32 rk)) = 176"
    using len by simp
  then have "(concat (map store_u32 rk) @ replicate 64 0 @ [10 :: u8]) ! 176 = 0"
    by (simp add: nth_append)
  moreover have "camlpdf_caml_aes_cook_encrypt_key ?key =
      concat (map store_u32 rk) @ replicate 64 0 @ [10]"
    unfolding ck using len by simp
  ultimately have "camlpdf_caml_aes_cook_encrypt_key ?key ! 176 = 0"
    by simp
  then show ?thesis
    using cook_valid_schedules(2) [OF key] by simp
qed

text \<open>
  C7 (as amended). A schedule buffer records the round keys and the round count and
  nothing about its orientation: the buffers of the two directions have the same
  length and the same last byte, and the calls are handed the words and the round
  count only. Neither call checks an orientation and there is no
  WrongScheduleOrientation error: \<open>camlpdf_caml_aes_decrypt\<close> given an encryption
  schedule runs the decryption rounds with its round keys, and
  \<open>camlpdf_caml_aes_encrypt\<close> given a decryption schedule runs the encryption rounds
  with its round keys; both calls succeed and write a block.
\<close>

theorem calls_accept_either_schedule:
  assumes key: "length key = 16 \<or> length key = 24 \<or> length key = 32"
    and ek: "h ekey = Some (camlpdf_caml_aes_cook_encrypt_key key)"
    and dk: "h dkey = Some (camlpdf_caml_aes_cook_decrypt_key key)"
    and s: "h src = Some s" and d: "h dst = Some d"
    and bounds: "in_bounds s src_ofs" "in_bounds d dst_ofs"
  shows "camlpdf_caml_aes_decrypt h ekey src src_ofs dst dst_ofs =
           Some (h(dst \<mapsto> write_block d dst_ofs
             (camlpdf_rijndaelDecrypt
                (fst (camlpdf_rijndaelKeySetupEnc key (key_bits (length key))))
                (length key div 4 + 6) (read_block s src_ofs)))) \<and>
         camlpdf_caml_aes_encrypt h dkey src src_ofs dst dst_ofs =
           Some (h(dst \<mapsto> write_block d dst_ofs
             (camlpdf_rijndaelEncrypt
                (fst (camlpdf_rijndaelKeySetupDec key (key_bits (length key))))
                (length key div 4 + 6) (read_block s src_ofs)))) \<and>
         length (camlpdf_caml_aes_cook_encrypt_key key) =
           length (camlpdf_caml_aes_cook_decrypt_key key) \<and>
         camlpdf_caml_aes_cook_encrypt_key key ! Cooked_key_NR_offset =
           camlpdf_caml_aes_cook_decrypt_key key ! Cooked_key_NR_offset"
proof (intro conjI)
  show "camlpdf_caml_aes_decrypt h ekey src src_ofs dst dst_ofs =
           Some (h(dst \<mapsto> write_block d dst_ofs
             (camlpdf_rijndaelDecrypt
                (fst (camlpdf_rijndaelKeySetupEnc key (key_bits (length key))))
                (length key div 4 + 6) (read_block s src_ofs))))"
    using key ek s d bounds by (rule encrypt_key_calls)
  show "camlpdf_caml_aes_encrypt h dkey src src_ofs dst dst_ofs =
           Some (h(dst \<mapsto> write_block d dst_ofs
             (camlpdf_rijndaelEncrypt
                (fst (camlpdf_rijndaelKeySetupDec key (key_bits (length key))))
                (length key div 4 + 6) (read_block s src_ofs))))"
    using key dk s d bounds by (rule decrypt_key_calls)
  show "length (camlpdf_caml_aes_cook_encrypt_key key) =
           length (camlpdf_caml_aes_cook_decrypt_key key)"
    by (simp only: length_cook_encrypt length_cook_decrypt)
  have "unat (camlpdf_caml_aes_cook_encrypt_key key ! Cooked_key_NR_offset) =
      unat (camlpdf_caml_aes_cook_decrypt_key key ! Cooked_key_NR_offset)"
    by (simp only: cook_valid_schedules(2,4) [OF key])
  then show "camlpdf_caml_aes_cook_encrypt_key key ! Cooked_key_NR_offset =
           camlpdf_caml_aes_cook_decrypt_key key ! Cooked_key_NR_offset"
    by (rule word_unat_eq_iff [THEN iffD2])
qed

theorem calls_accept_either_schedule_witness:
  "length (replicate 16 0 :: u8 list) = 16 \<and>
   in_bounds (replicate 16 0) 0 \<and>
   camlpdf_caml_aes_decrypt
     [0 \<mapsto> camlpdf_caml_aes_cook_encrypt_key (replicate 16 0),
      1 \<mapsto> camlpdf_caml_aes_cook_decrypt_key (replicate 16 0),
      2 \<mapsto> replicate 16 0, 3 \<mapsto> replicate 16 0] 0 2 0 3 0 \<noteq> None \<and>
   camlpdf_caml_aes_encrypt
     [0 \<mapsto> camlpdf_caml_aes_cook_encrypt_key (replicate 16 0),
      1 \<mapsto> camlpdf_caml_aes_cook_decrypt_key (replicate 16 0),
      2 \<mapsto> replicate 16 0, 3 \<mapsto> replicate 16 0] 1 2 0 3 0 \<noteq> None"
proof -
  let ?key = "replicate 16 0 :: u8 list"
  let ?z = "replicate 16 0 :: u8 list"
  let ?h = "[0 \<mapsto> camlpdf_caml_aes_cook_encrypt_key ?key,
             1 \<mapsto> camlpdf_caml_aes_cook_decrypt_key ?key, 2 \<mapsto> ?z, 3 \<mapsto> ?z] :: store"
  have key: "length ?key = 16 \<or> length ?key = 24 \<or> length ?key = 32"
    by simp
  have ek: "?h 0 = Some (camlpdf_caml_aes_cook_encrypt_key ?key)"
    and dk: "?h 1 = Some (camlpdf_caml_aes_cook_decrypt_key ?key)"
    and s: "?h 2 = Some ?z" and d: "?h 3 = Some ?z"
    by simp_all
  have b: "in_bounds ?z 0"
    by (simp add: in_bounds_def)
  note calls = calls_accept_either_schedule [OF key ek dk s d b b]
  have "camlpdf_caml_aes_decrypt ?h 0 2 0 3 0 \<noteq> None"
    using calls [THEN conjunct1] by (simp only: option.distinct not_False_eq_True)
  moreover have "camlpdf_caml_aes_encrypt ?h 1 2 0 3 0 \<noteq> None"
    using calls [THEN conjunct2, THEN conjunct1] by (simp only: option.distinct not_False_eq_True)
  moreover have "length ?key = 16"
    by simp
  ultimately show ?thesis
    using b by (intro conjI)
qed

text \<open>
  C7 as stated fails: the encryption schedule of the all-zero key of 16 bytes, passed
  to the decryption call with the all-zero block, raises no error; the call writes
  sixteen bytes, the decryption rounds run with the round keys of the encryption
  schedule. The store holds the schedule as object 0, the input block as object 1
  and the output buffer as object 2.
\<close>

theorem wrong_orientation_is_not_detected:
  "camlpdf_caml_aes_decrypt
     [0 \<mapsto> camlpdf_caml_aes_cook_encrypt_key (replicate 16 0),
      1 \<mapsto> replicate 16 0, 2 \<mapsto> replicate 16 0] 0 1 0 2 0 =
   Some [0 \<mapsto> camlpdf_caml_aes_cook_encrypt_key (replicate 16 0),
         1 \<mapsto> replicate 16 0,
         2 \<mapsto> [0x10, 0x94, 0xcd, 0x8f, 0xec, 0x5a, 0xef, 0x95,
              0xa2, 0xa8, 0xc1, 0x4a, 0x59, 0xdc, 0x68, 0xdc]]"
proof -
  let ?key = "replicate 16 0 :: u8 list"
  let ?z = "replicate 16 0 :: u8 list"
  let ?h = "[0 \<mapsto> camlpdf_caml_aes_cook_encrypt_key ?key, 1 \<mapsto> ?z, 2 \<mapsto> ?z] :: store"
  have key: "length ?key = 16 \<or> length ?key = 24 \<or> length ?key = 32"
    by simp
  have "camlpdf_caml_aes_decrypt ?h 0 1 0 2 0 =
      Some (?h(2 \<mapsto> write_block ?z 0
        (camlpdf_rijndaelDecrypt
           (fst (camlpdf_rijndaelKeySetupEnc ?key (key_bits (length ?key))))
           (length ?key div 4 + 6) (read_block ?z 0))))"
    using key by (rule encrypt_key_calls) (simp_all add: in_bounds_def)
  moreover have "read_block ?z 0 = replicate 16 0"
    by (simp add: read_block_def)
  ultimately show ?thesis
    by (simp add: decrypt_with_encrypt_schedule write_block_def)
qed



text \<open>
  C9 (as amended). The encryption and decryption calls make no check of buffer
  lengths and have no InvalidBlockLength error: they get the pointers
  \<open>src + src_ofs\<close> and \<open>dst + dst_ofs\<close> and no length. With a schedule in bounds
  and sixteen bytes in bounds at each offset, whatever the lengths of \<open>src\<close> and
  \<open>dst\<close>, the call succeeds: it transforms the sixteen bytes at \<open>src_ofs\<close> and
  writes the result at \<open>dst_ofs\<close>, and \<open>dst\<close> keeps its length.
\<close>

theorem calls_make_no_length_check:
  assumes "h ckey = Some ck" and "h src = Some s" and "h dst = Some d"
    and "schedule_in_bounds ck" and "in_bounds s src_ofs" and "in_bounds d dst_ofs"
  shows "(\<exists>d'. camlpdf_caml_aes_encrypt h ckey src src_ofs dst dst_ofs = Some (h(dst \<mapsto> d')) \<and>
            length d' = length d \<and>
            read_block d' dst_ofs =
              camlpdf_rijndaelEncrypt (load_words ck) (unat (ck ! Cooked_key_NR_offset))
                (take 16 (drop (nat src_ofs) s))) \<and>
         (\<exists>d'. camlpdf_caml_aes_decrypt h ckey src src_ofs dst dst_ofs = Some (h(dst \<mapsto> d')) \<and>
            length d' = length d \<and>
            read_block d' dst_ofs =
              camlpdf_rijndaelDecrypt (load_words ck) (unat (ck ! Cooked_key_NR_offset))
                (take 16 (drop (nat src_ofs) s)))"
proof (intro conjI)
  let ?c = "camlpdf_rijndaelEncrypt (load_words ck) (unat (ck ! Cooked_key_NR_offset))
              (read_block s src_ofs)"
  have lc: "length ?c = 16"
    using assms(4) by (rule length_Encrypt_schedule)
  have "camlpdf_caml_aes_encrypt h ckey src src_ofs dst dst_ofs =
      Some (h(dst \<mapsto> write_block d dst_ofs ?c))"
    using assms by (rule encrypt_call)
  moreover have "length (write_block d dst_ofs ?c) = length d"
    using assms(6) lc by (rule length_write_block)
  moreover have "read_block (write_block d dst_ofs ?c) dst_ofs = ?c"
    using assms(6) lc by (rule read_write_block)
  ultimately show "\<exists>d'. camlpdf_caml_aes_encrypt h ckey src src_ofs dst dst_ofs =
      Some (h(dst \<mapsto> d')) \<and> length d' = length d \<and>
      read_block d' dst_ofs =
        camlpdf_rijndaelEncrypt (load_words ck) (unat (ck ! Cooked_key_NR_offset))
          (take 16 (drop (nat src_ofs) s))"
    unfolding read_block_def [of s] by blast
next
  let ?p = "camlpdf_rijndaelDecrypt (load_words ck) (unat (ck ! Cooked_key_NR_offset))
              (read_block s src_ofs)"
  have lp: "length ?p = 16"
    using assms(4) by (rule length_Decrypt_schedule)
  have "camlpdf_caml_aes_decrypt h ckey src src_ofs dst dst_ofs =
      Some (h(dst \<mapsto> write_block d dst_ofs ?p))"
    using assms by (rule decrypt_call)
  moreover have "length (write_block d dst_ofs ?p) = length d"
    using assms(6) lp by (rule length_write_block)
  moreover have "read_block (write_block d dst_ofs ?p) dst_ofs = ?p"
    using assms(6) lp by (rule read_write_block)
  ultimately show "\<exists>d'. camlpdf_caml_aes_decrypt h ckey src src_ofs dst dst_ofs =
      Some (h(dst \<mapsto> d')) \<and> length d' = length d \<and>
      read_block d' dst_ofs =
        camlpdf_rijndaelDecrypt (load_words ck) (unat (ck ! Cooked_key_NR_offset))
          (take 16 (drop (nat src_ofs) s))"
    unfolding read_block_def [of s] by blast
qed

theorem calls_make_no_length_check_witness:
  "schedule_in_bounds (replicate 240 0 @ [10]) \<and>
   in_bounds (replicate 40 1) 3 \<and> in_bounds (replicate 100 0) 84 \<and>
   (\<exists>d'. camlpdf_caml_aes_encrypt
            [0 \<mapsto> replicate 240 0 @ [10], 1 \<mapsto> replicate 40 1, 2 \<mapsto> replicate 100 0] 0 1 3 2 84 =
          Some ([0 \<mapsto> replicate 240 0 @ [10], 1 \<mapsto> replicate 40 1, 2 \<mapsto> replicate 100 0]
                  (2 \<mapsto> d')) \<and>
          length d' = length (replicate 100 0 :: u8 list) \<and>
          read_block d' 84 =
            camlpdf_rijndaelEncrypt (load_words (replicate 240 0 @ [10]))
              (unat ((replicate 240 0 @ [10] :: u8 list) ! Cooked_key_NR_offset))
              (take 16 (drop (nat 3) (replicate 40 1))))"
proof -
  let ?ck = "replicate 240 0 @ [10] :: u8 list"
  let ?s = "replicate 40 1 :: u8 list"
  let ?d = "replicate 100 0 :: u8 list"
  let ?h = "[0 \<mapsto> ?ck, 1 \<mapsto> ?s, 2 \<mapsto> ?d] :: store"
  have ck: "?h 0 = Some ?ck" and s: "?h 1 = Some ?s" and d: "?h 2 = Some ?d"
    by simp_all
  have bs: "in_bounds ?s 3" and bd: "in_bounds ?d 84"
    by (simp_all add: in_bounds_def)
  from zero_schedule_in_bounds bs bd
    calls_make_no_length_check [OF ck s d zero_schedule_in_bounds bs bd, THEN conjunct1]
  show ?thesis
    by (intro conjI) assumption+
qed

text \<open>
  C9 as stated fails: with \<open>src\<close> and \<open>dst\<close> of 32 bytes each, neither of them
  exactly 16 bytes, the call is not rejected; it encrypts the first sixteen bytes
  of \<open>src\<close> into the first sixteen bytes of \<open>dst\<close>.
\<close>

theorem long_buffers_are_accepted:
  "camlpdf_caml_aes_encrypt
     [0 \<mapsto> camlpdf_caml_aes_cook_encrypt_key (replicate 16 0),
      1 \<mapsto> replicate 32 0, 2 \<mapsto> replicate 32 0] 0 1 0 2 0 =
   Some [0 \<mapsto> camlpdf_caml_aes_cook_encrypt_key (replicate 16 0),
         1 \<mapsto> replicate 32 0,
         2 \<mapsto> [0x66, 0xe9, 0x4b, 0xd4, 0xef, 0x8a, 0x2c, 0x3b,
              0x88, 0x4c, 0xfa, 0x59, 0xca, 0x34, 0x2b, 0x2e] @ replicate 16 0]"
proof -
  let ?key = "replicate 16 0 :: u8 list"
  let ?z = "replicate 32 0 :: u8 list"
  let ?h = "[0 \<mapsto> camlpdf_caml_aes_cook_encrypt_key ?key, 1 \<mapsto> ?z, 2 \<mapsto> ?z] :: store"
  have key: "length ?key = 16 \<or> length ?key = 24 \<or> length ?key = 32"
    by simp
  have "camlpdf_caml_aes_encrypt ?h 0 1 0 2 0 =
      Some (?h(2 \<mapsto> write_block ?z 0
        (camlpdf_rijndaelEncrypt
           (fst (camlpdf_rijndaelKeySetupEnc ?key (key_bits (length ?key))))
           (length ?key div 4 + 6) (read_block ?z 0))))"
    using key by (rule encrypt_key_calls) (simp_all add: in_bounds_def)
  moreover have "read_block ?z 0 = replicate 16 0"
    by (simp add: read_block_def)
  ultimately show ?thesis
    by (simp add: zero_vector_128 write_block_def)
qed

text \<open>
  C10 (as amended). A call of \<open>camlpdf_caml_aes_encrypt\<close> or
  \<open>camlpdf_caml_aes_decrypt\<close> with the schedule and both blocks in bounds writes the
  sixteen bytes of \<open>dst\<close> from \<open>dst_ofs\<close> and nothing else: every other byte of
  \<open>dst\<close> and every other object of the store is unchanged. So \<open>src\<close> and \<open>ckey\<close>
  are unchanged when they are objects other than \<open>dst\<close>; when \<open>src\<close> (or \<open>ckey\<close>)
  is the object \<open>dst\<close> itself, its bytes in that window are overwritten.
\<close>

theorem calls_write_only_the_block:
  assumes "h ckey = Some ck" and "h src = Some s" and "h dst = Some d"
    and "schedule_in_bounds ck" and "in_bounds s src_ofs" and "in_bounds d dst_ofs"
  shows "(\<exists>h' d'. camlpdf_caml_aes_encrypt h ckey src src_ofs dst dst_ofs = Some h' \<and>
            h' dst = Some d' \<and> length d' = length d \<and>
            (\<forall>i < length d. i < nat dst_ofs \<or> nat dst_ofs + 16 \<le> i \<longrightarrow> d' ! i = d ! i) \<and>
            (\<forall>b. b \<noteq> dst \<longrightarrow> h' b = h b)) \<and>
         (\<exists>h' d'. camlpdf_caml_aes_decrypt h ckey src src_ofs dst dst_ofs = Some h' \<and>
            h' dst = Some d' \<and> length d' = length d \<and>
            (\<forall>i < length d. i < nat dst_ofs \<or> nat dst_ofs + 16 \<le> i \<longrightarrow> d' ! i = d ! i) \<and>
            (\<forall>b. b \<noteq> dst \<longrightarrow> h' b = h b))"
proof (intro conjI)
  let ?c = "camlpdf_rijndaelEncrypt (load_words ck) (unat (ck ! Cooked_key_NR_offset))
              (read_block s src_ofs)"
  have lc: "length ?c = 16"
    using assms(4) by (rule length_Encrypt_schedule)
  have "camlpdf_caml_aes_encrypt h ckey src src_ofs dst dst_ofs =
      Some (h(dst \<mapsto> write_block d dst_ofs ?c))"
    using assms by (rule encrypt_call)
  moreover have "length (write_block d dst_ofs ?c) = length d"
    using assms(6) lc by (rule length_write_block)
  moreover have "\<forall>i. i < nat dst_ofs \<or> nat dst_ofs + 16 \<le> i \<longrightarrow>
      write_block d dst_ofs ?c ! i = d ! i"
    using assms(6) lc by (blast intro: write_block_frame)
  ultimately show "\<exists>h' d'. camlpdf_caml_aes_encrypt h ckey src src_ofs dst dst_ofs = Some h' \<and>
      h' dst = Some d' \<and> length d' = length d \<and>
      (\<forall>i < length d. i < nat dst_ofs \<or> nat dst_ofs + 16 \<le> i \<longrightarrow> d' ! i = d ! i) \<and>
      (\<forall>b. b \<noteq> dst \<longrightarrow> h' b = h b)"
    by (intro exI [of _ "h(dst \<mapsto> write_block d dst_ofs ?c)"]
        exI [of _ "write_block d dst_ofs ?c"]) simp
next
  let ?p = "camlpdf_rijndaelDecrypt (load_words ck) (unat (ck ! Cooked_key_NR_offset))
              (read_block s src_ofs)"
  have lp: "length ?p = 16"
    using assms(4) by (rule length_Decrypt_schedule)
  have "camlpdf_caml_aes_decrypt h ckey src src_ofs dst dst_ofs =
      Some (h(dst \<mapsto> write_block d dst_ofs ?p))"
    using assms by (rule decrypt_call)
  moreover have "length (write_block d dst_ofs ?p) = length d"
    using assms(6) lp by (rule length_write_block)
  moreover have "\<forall>i. i < nat dst_ofs \<or> nat dst_ofs + 16 \<le> i \<longrightarrow>
      write_block d dst_ofs ?p ! i = d ! i"
    using assms(6) lp by (blast intro: write_block_frame)
  ultimately show "\<exists>h' d'. camlpdf_caml_aes_decrypt h ckey src src_ofs dst dst_ofs = Some h' \<and>
      h' dst = Some d' \<and> length d' = length d \<and>
      (\<forall>i < length d. i < nat dst_ofs \<or> nat dst_ofs + 16 \<le> i \<longrightarrow> d' ! i = d ! i) \<and>
      (\<forall>b. b \<noteq> dst \<longrightarrow> h' b = h b)"
    by (intro exI [of _ "h(dst \<mapsto> write_block d dst_ofs ?p)"]
        exI [of _ "write_block d dst_ofs ?p"]) simp
qed

theorem calls_write_only_the_block_witness:
  "schedule_in_bounds (replicate 240 0 @ [10]) \<and>
   in_bounds (replicate 40 1) 3 \<and> in_bounds (replicate 100 9) 84 \<and>
   (\<exists>h' d'. camlpdf_caml_aes_encrypt
            [0 \<mapsto> replicate 240 0 @ [10], 1 \<mapsto> replicate 40 1, 2 \<mapsto> replicate 100 9] 0 1 3 2 84 =
          Some h' \<and> h' 2 = Some d' \<and> length d' = 100 \<and>
          d' ! 83 = 9 \<and> h' 0 = Some (replicate 240 0 @ [10]) \<and> h' 1 = Some (replicate 40 1))"
proof -
  let ?ck = "replicate 240 0 @ [10] :: u8 list"
  let ?s = "replicate 40 1 :: u8 list"
  let ?d = "replicate 100 9 :: u8 list"
  let ?h = "[0 \<mapsto> ?ck, 1 \<mapsto> ?s, 2 \<mapsto> ?d] :: store"
  have ck: "?h 0 = Some ?ck" and s: "?h 1 = Some ?s" and d: "?h 2 = Some ?d"
    by simp_all
  have bs: "in_bounds ?s 3" and bd: "in_bounds ?d 84"
    by (simp_all add: in_bounds_def)
  from calls_write_only_the_block [OF ck s d zero_schedule_in_bounds bs bd, THEN conjunct1]
  obtain h' d' where call: "camlpdf_caml_aes_encrypt ?h 0 1 3 2 84 = Some h'"
    and d': "h' 2 = Some d'" "length d' = length ?d"
    and frame: "\<forall>i < length ?d. i < nat 84 \<or> nat 84 + 16 \<le> i \<longrightarrow> d' ! i = ?d ! i"
    and others: "\<forall>b. b \<noteq> 2 \<longrightarrow> h' b = ?h b"
    by blast
  from frame have "d' ! 83 = ?d ! 83"
    by simp
  then have "d' ! 83 = 9"
    by simp
  moreover from others have "h' 0 = Some ?ck" and "h' 1 = Some ?s"
    by simp_all
  moreover from d'(2) have "length d' = 100"
    by simp
  ultimately show ?thesis
    using zero_schedule_in_bounds bs bd call d'(1) by blast
qed

text \<open>
  C10 as stated fails when \<open>src\<close> and \<open>dst\<close> are the same object, as in an
  encryption in place: the sixteen bytes of \<open>src\<close> are then overwritten with the
  ciphertext. The store holds the schedule as object 0 and one block, all zero
  before the call, as object 1.
\<close>

theorem source_overwritten_in_place:
  "camlpdf_caml_aes_encrypt
     [0 \<mapsto> camlpdf_caml_aes_cook_encrypt_key (replicate 16 0), 1 \<mapsto> replicate 16 0]
     0 1 0 1 0 =
   Some [0 \<mapsto> camlpdf_caml_aes_cook_encrypt_key (replicate 16 0),
         1 \<mapsto> [0x66, 0xe9, 0x4b, 0xd4, 0xef, 0x8a, 0x2c, 0x3b,
              0x88, 0x4c, 0xfa, 0x59, 0xca, 0x34, 0x2b, 0x2e]]"
proof -
  let ?key = "replicate 16 0 :: u8 list"
  let ?z = "replicate 16 0 :: u8 list"
  let ?h = "[0 \<mapsto> camlpdf_caml_aes_cook_encrypt_key ?key, 1 \<mapsto> ?z] :: store"
  have key: "length ?key = 16 \<or> length ?key = 24 \<or> length ?key = 32"
    by simp
  have "camlpdf_caml_aes_encrypt ?h 0 1 0 1 0 =
      Some (?h(1 \<mapsto> write_block ?z 0
        (camlpdf_rijndaelEncrypt
           (fst (camlpdf_rijndaelKeySetupEnc ?key (key_bits (length ?key))))
           (length ?key div 4 + 6) (read_block ?z 0))))"
    using key by (rule encrypt_key_calls) (simp_all add: in_bounds_def)
  moreover have "read_block ?z 0 = replicate 16 0"
    by (simp add: read_block_def)
  ultimately show ?thesis
    by (simp add: zero_vector_128 write_block_def)
qed

end
